theory Spec2Isabelle
  imports Main "HOL-Library.AList"
begin

section \<open>Values, errors and the indent strategies\<close>

text \<open>
  The module \<^verbatim>\<open>context_logger/__init__.py\<close> is embedded with an explicit store:
  Python lists and \<^verbatim>\<open>Logger\<close> objects are mutable and are passed by reference, so a
  logger holds the address of its \<^verbatim>\<open>nlist\<close>, and the context variable holds the
  address of a logger. Python integers are \<^typ>\<open>int\<close>, strings are \<^typ>\<open>string\<close>,
  an exception is a value \<open>Inl e\<close> returned together with the store as the raise left it.
\<close>

text \<open>
  \<open>IndexError\<close>: \<^verbatim>\<open>nlist[-1]\<close> on an empty list. \<open>AttributeError\<close>: an attribute the
  object does not have. \<open>TypeError\<close>: \<^verbatim>\<open>bytes.startswith\<close> given a \<^verbatim>\<open>str\<close>, a
  value that cannot be sliced, a value that cannot be added to a string.
  \<open>Raised\<close>: any exception raised by code the module calls but does not contain
  (the decorated function, the message function, a custom log function, the methods of
  a message object).
\<close>

datatype error = IndexError | AttributeError | TypeError | Raised string

text \<open>\<^verbatim>\<open>s.startswith(":")\<close> and \<^verbatim>\<open>s.endswith(":")\<close> on a string.\<close>

definition startswith_colon :: "string \<Rightarrow> bool" where
  "startswith_colon s = (take 1 s = '':'')"

definition endswith_colon :: "string \<Rightarrow> bool" where
  "endswith_colon s = (s \<noteq> [] \<and> last s = CHR '':'')"

text \<open>
  The parameter \<^verbatim>\<open>message\<close> is untyped, and \<^verbatim>\<open>log\<close> uses a message only through
  \<^verbatim>\<open>startswith\<close>, slicing, \<^verbatim>\<open>isinstance(message, str)\<close>, its truth value, \<^verbatim>\<open>!=\<close>
  and what the log function does with it. \<open>pyval\<close> has the values of the built-in types
  \<^verbatim>\<open>NoneType\<close>, \<^verbatim>\<open>bool\<close>, \<^verbatim>\<open>int\<close>, \<^verbatim>\<open>str\<close>, \<^verbatim>\<open>bytes\<close> and \<^verbatim>\<open>list\<close>, the
  instances of \<^verbatim>\<open>collections.UserString\<close> (not a subclass of \<^verbatim>\<open>str\<close>, with the
  methods of \<^verbatim>\<open>str\<close>), and \<open>VObject\<close>, an instance of any other class that is not a
  subclass of \<^verbatim>\<open>str\<close>, given by its answers: to \<^verbatim>\<open>message.startswith(":")\<close> taken
  as a condition (AttributeError when it has no such method), to \<^verbatim>\<open>message[1:]\<close>, to
  its truth test, to \<^verbatim>\<open>message != " "\<close> taken as a condition, and to
  \<^verbatim>\<open>print(s + message)\<close> for a string \<open>s\<close> (the text it adds to the right of
  \<open>s\<close>). Each answer is a value or an exception.
\<close>

datatype pyval =
    VNone
  | VBool bool
  | VInt int
  | VStr string
  | VBytes "nat list"
  | VList "pyval list"
  | VUserString string
  | VObject "error + bool" "error + pyval" "error + bool" "error + bool" "error + string"

text \<open>\<^verbatim>\<open>message.startswith(":")\<close>, taken as a condition.\<close>

fun py_startswith :: "pyval \<Rightarrow> error + bool" where
  "py_startswith (VStr s) = Inr (startswith_colon s)"
| "py_startswith (VUserString s) = Inr (startswith_colon s)"
| "py_startswith (VBytes b) = Inl TypeError"
| "py_startswith (VObject st sl tr ne pr) = st"
| "py_startswith v = Inl AttributeError"

text \<open>\<^verbatim>\<open>message[1:]\<close>.\<close>

fun py_slice_from_1 :: "pyval \<Rightarrow> error + pyval" where
  "py_slice_from_1 (VStr s) = Inr (VStr (drop 1 s))"
| "py_slice_from_1 (VUserString s) = Inr (VUserString (drop 1 s))"
| "py_slice_from_1 (VBytes b) = Inr (VBytes (drop 1 b))"
| "py_slice_from_1 (VList xs) = Inr (VList (drop 1 xs))"
| "py_slice_from_1 (VObject st sl tr ne pr) = sl"
| "py_slice_from_1 v = Inl TypeError"

text \<open>\<^verbatim>\<open>isinstance(message, str)\<close>.\<close>

fun is_str :: "pyval \<Rightarrow> bool" where
  "is_str (VStr s) = True"
| "is_str v = False"

text \<open>\<^verbatim>\<open>isinstance(message, str) and message.endswith(":")\<close>.\<close>

fun str_endswith_colon :: "pyval \<Rightarrow> bool" where
  "str_endswith_colon (VStr s) = endswith_colon s"
| "str_endswith_colon v = False"

text \<open>\<^verbatim>\<open>message[:-1]\<close>, which the code reaches for a \<^verbatim>\<open>str\<close> only.\<close>

fun py_slice_to_last :: "pyval \<Rightarrow> pyval" where
  "py_slice_to_last (VStr s) = VStr (butlast s)"
| "py_slice_to_last v = v"

text \<open>The truth value of a message, \<^verbatim>\<open>if message\<close>.\<close>

fun py_truthy :: "pyval \<Rightarrow> error + bool" where
  "py_truthy VNone = Inr False"
| "py_truthy (VBool b) = Inr b"
| "py_truthy (VInt i) = Inr (i \<noteq> 0)"
| "py_truthy (VStr s) = Inr (s \<noteq> [])"
| "py_truthy (VBytes b) = Inr (b \<noteq> [])"
| "py_truthy (VList xs) = Inr (xs \<noteq> [])"
| "py_truthy (VUserString s) = Inr (s \<noteq> [])"
| "py_truthy (VObject st sl tr ne pr) = tr"

text \<open>\<^verbatim>\<open>message != " "\<close>, taken as a condition.\<close>

fun py_ne_space :: "pyval \<Rightarrow> error + bool" where
  "py_ne_space (VStr s) = Inr (s \<noteq> '' '')"
| "py_ne_space (VUserString s) = Inr (s \<noteq> '' '')"
| "py_ne_space (VObject st sl tr ne pr) = ne"
| "py_ne_space v = Inr True"

text \<open>
  What \<^verbatim>\<open>print(s + message)\<close> writes for a string \<open>s\<close>: a \<^verbatim>\<open>UserString\<close> adds
  its text to the right of a \<^verbatim>\<open>str\<close>; the built-in types other than \<^verbatim>\<open>str\<close>
  cannot be added to a \<^verbatim>\<open>str\<close>.
\<close>

fun str_plus :: "string \<Rightarrow> pyval \<Rightarrow> error + string" where
  "str_plus s (VStr t) = Inr (s @ t)"
| "str_plus s (VUserString t) = Inr (s @ t)"
| "str_plus s (VObject st sl tr ne pr) = (case pr of Inl e \<Rightarrow> Inl e | Inr t \<Rightarrow> Inr (s @ t))"
| "str_plus s v = Inl TypeError"

text \<open>\<^verbatim>\<open>NoneIndent()\<close>, \<^verbatim>\<open>SpaceIndent(char)\<close>, \<^verbatim>\<open>NumberedIndent()\<close>.\<close>

datatype indent = NoneIndent | SpaceIndent string | NumberedIndent

text \<open>The decimal text of an integer, as \<^verbatim>\<open>f"{number}"\<close> gives it.\<close>

definition digit_char :: "nat \<Rightarrow> char" where
  "digit_char d = ''0123456789'' ! d"

fun str_nat :: "nat \<Rightarrow> string" where
  "str_nat n = (if n < 10 then [digit_char n] else str_nat (n div 10) @ [digit_char (n mod 10)])"

declare str_nat.simps [simp del]

definition str_int :: "int \<Rightarrow> string" where
  "str_int i = (if i < 0 then CHR ''-'' # str_nat (nat (- i)) else str_nat (nat i))"

text \<open>
  \<^verbatim>\<open>s * n\<close> on a string: \<open>n\<close> copies of \<open>s\<close>, and the empty string when \<open>n \<le> 0\<close>
  (\<^verbatim>\<open>len(nlist) - 1\<close> is \<open>-1\<close> on an empty list).
\<close>

definition str_mul :: "string \<Rightarrow> int \<Rightarrow> string" where
  "str_mul s n = (if n \<le> 0 then [] else concat (replicate (nat n) s))"

text \<open>The \<^verbatim>\<open>__call__\<close> of the three subclasses of \<^verbatim>\<open>BaseIndent\<close>.\<close>

fun indent_call :: "indent \<Rightarrow> int list \<Rightarrow> string" where
  "indent_call NoneIndent nlist = []"
| "indent_call (SpaceIndent char) nlist = str_mul char (int (length nlist) - 1)"
| "indent_call NumberedIndent nlist = concat (map (\<lambda>number. str_int number @ ''. '') nlist)"

definition STD_SPACE_INDENT :: indent where
  "STD_SPACE_INDENT = SpaceIndent '' ''"

text \<open>
  \<^verbatim>\<open>std_log_function\<close> prints one line; \<open>std_log_line\<close> is the text it prints, or
  the exception of the concatenation. An empty prefix is falsy and gives no tag.
\<close>

definition std_log_line :: "pyval \<Rightarrow> string \<Rightarrow> int list \<Rightarrow> indent \<Rightarrow> error + string" where
  "std_log_line message prefix nlist ind =
     str_plus ((if prefix \<noteq> [] then ''['' @ prefix @ ''] '' else []) @ indent_call ind nlist) message"

section \<open>The store\<close>

text \<open>
  A log function is \<^verbatim>\<open>std_log_function\<close> or a callable of the caller. A custom
  callable is modelled by what the module can observe of it: given the four arguments it
  returns (\<open>None\<close>) or raises (\<open>Some e\<close>). It receives the contents of the list
  and is taken not to mutate the list or the context variable.
\<close>

datatype sink =
    Std_log_function
  | Custom_log_function "pyval \<Rightarrow> string \<Rightarrow> int list \<Rightarrow> indent \<Rightarrow> error option"

text \<open>
  The attributes of a \<^verbatim>\<open>Logger\<close> object. \<open>nlist\<close> is the address of a list object.
  \<open>prev_logger\<close> is only annotated in \<^verbatim>\<open>__init__\<close>, so it is unset (\<open>None\<close>) until
  \<^verbatim>\<open>__enter__\<close> assigns the address of a logger.
\<close>

record logger =
  log_function :: sink
  prefix :: string
  nlist :: nat
  indent_type :: indent
  prev_logger :: "nat option"

text \<open>
  \<open>list_heap\<close> and \<open>logger_heap\<close> hold the list and \<^verbatim>\<open>Logger\<close> objects, an
  address being an index; a new object is appended, so its address is the length of the
  heap before. \<open>logger_contextvar\<close> is \<open>None\<close> while the context variable has never
  been set (then \<^verbatim>\<open>get\<close> returns the default). \<open>sink_calls\<close> records every call
  of a log function with the arguments it received (the list by its contents at the
  call), \<open>stdout\<close> the lines printed by \<^verbatim>\<open>std_log_function\<close>.
\<close>

record world =
  list_heap :: "int list list"
  logger_heap :: "logger list"
  logger_contextvar :: "nat option"
  sink_calls :: "(pyval \<times> string \<times> int list \<times> indent) list"
  stdout :: "string list"

type_synonym 'a action = "world \<Rightarrow> (error + 'a) \<times> world"

definition return :: "'a \<Rightarrow> 'a action" where
  "return x w = (Inr x, w)"

definition raise :: "error \<Rightarrow> 'a action" where
  "raise e w = (Inl e, w)"

text \<open>An expression that has a value or raises, and leaves the store alone.\<close>

definition lift :: "error + 'a \<Rightarrow> 'a action" where
  "lift r w = (r, w)"

text \<open>Sequencing of two statements: an exception of the first skips the second.\<close>

definition then_do :: "'a action \<Rightarrow> ('a \<Rightarrow> 'b action) \<Rightarrow> 'b action" where
  "then_do m f w = (case m w of (Inl e, w') \<Rightarrow> (Inl e, w') | (Inr x, w') \<Rightarrow> f x w')"

text \<open>The depth stack of the logger at address \<open>l\<close>: the contents of its list.\<close>

definition stack :: "world \<Rightarrow> nat \<Rightarrow> int list" where
  "stack w l = list_heap w ! nlist (logger_heap w ! l)"

definition set_stack :: "nat \<Rightarrow> int list \<Rightarrow> world \<Rightarrow> world" where
  "set_stack l ns w = w\<lparr>list_heap := (list_heap w)[nlist (logger_heap w ! l) := ns]\<rparr>"

text \<open>
  \<open>l\<close> is the address of a logger object of the store and its \<open>nlist\<close> is the address
  of a list object of the store. Python has no dangling reference, so every logger a
  program holds is valid.
\<close>

definition valid :: "world \<Rightarrow> nat \<Rightarrow> bool" where
  "valid w l \<longleftrightarrow> l < length (logger_heap w) \<and> nlist (logger_heap w ! l) < length (list_heap w)"

section \<open>The class Logger\<close>

text \<open>
  \<^verbatim>\<open>Logger.__init__\<close>: with \<^verbatim>\<open>nlist=None\<close> a new list \<open>[0]\<close> is created, otherwise the
  list passed is stored by reference. Returns the address of the new logger.
\<close>

definition Logger_init :: "string \<Rightarrow> sink \<Rightarrow> indent \<Rightarrow> nat option \<Rightarrow> nat action" where
  "Logger_init prefix' log_function' indent' nlist' w =
     (let (r, w1) = (case nlist' of
                       Some r \<Rightarrow> (r, w)
                     | None \<Rightarrow> (length (list_heap w), w\<lparr>list_heap := list_heap w @ [[0]]\<rparr>));
          self = length (logger_heap w1)
      in (Inr self,
          w1\<lparr>logger_heap := logger_heap w1 @
                [\<lparr>log_function = log_function', prefix = prefix', nlist = r,
                  indent_type = indent', prev_logger = None\<rparr>]\<rparr>))"

text \<open>\<^verbatim>\<open>Logger.indent\<close>: \<^verbatim>\<open>self.nlist.append(0)\<close>.\<close>

definition Logger_indent :: "nat \<Rightarrow> unit action" where
  "Logger_indent self w = (Inr (), set_stack self (stack w self @ [0]) w)"

text \<open>\<^verbatim>\<open>Logger.deindent\<close>: \<^verbatim>\<open>del self.nlist[-1]\<close>, an IndexError on an empty list.\<close>

definition Logger_deindent :: "nat \<Rightarrow> unit action" where
  "Logger_deindent self w =
     (if stack w self = [] then (Inl IndexError, w)
      else (Inr (), set_stack self (butlast (stack w self)) w))"

text \<open>\<^verbatim>\<open>self.nlist[-1] += 1\<close>, the first statement of \<^verbatim>\<open>log\<close>.\<close>

definition incr_last :: "nat \<Rightarrow> unit action" where
  "incr_last self w =
     (if stack w self = [] then (Inl IndexError, w)
      else (Inr (), set_stack self (butlast (stack w self) @ [last (stack w self) + 1]) w))"

text \<open>
  What a call of a log function does: the exception it raises, if any, and the lines it
  prints. \<^verbatim>\<open>std_log_function\<close> prints its line, or raises when the message cannot be
  added to a string.
\<close>

fun sink_outcome :: "sink \<Rightarrow> pyval \<Rightarrow> string \<Rightarrow> int list \<Rightarrow> indent \<Rightarrow> error option" where
  "sink_outcome Std_log_function message pre ns ind =
     (case std_log_line message pre ns ind of Inl e \<Rightarrow> Some e | Inr line \<Rightarrow> None)"
| "sink_outcome (Custom_log_function f) message pre ns ind = f message pre ns ind"

fun sink_prints :: "sink \<Rightarrow> pyval \<Rightarrow> string \<Rightarrow> int list \<Rightarrow> indent \<Rightarrow> string list" where
  "sink_prints Std_log_function message pre ns ind =
     (case std_log_line message pre ns ind of Inl e \<Rightarrow> [] | Inr line \<Rightarrow> [line])"
| "sink_prints (Custom_log_function f) message pre ns ind = []"

text \<open>
  \<^verbatim>\<open>self.log_function(message, self.prefix, self.nlist, self.indent_type)\<close>:
  \<open>call_outcome\<close> is the exception the call raises, if any, and \<open>record_call\<close> the
  store after it, with the call recorded and its lines printed.
\<close>

definition call_outcome :: "world \<Rightarrow> nat \<Rightarrow> pyval \<Rightarrow> error option" where
  "call_outcome w self message =
     (let lg = logger_heap w ! self
      in sink_outcome (log_function lg) message (prefix lg) (stack w self) (indent_type lg))"

definition record_call :: "nat \<Rightarrow> pyval \<Rightarrow> world \<Rightarrow> world" where
  "record_call self message w =
     (let lg = logger_heap w ! self
      in w\<lparr>sink_calls := sink_calls w @ [(message, prefix lg, stack w self, indent_type lg)],
           stdout := stdout w @
             sink_prints (log_function lg) message (prefix lg) (stack w self) (indent_type lg)\<rparr>)"

definition call_log_function :: "nat \<Rightarrow> pyval \<Rightarrow> unit action" where
  "call_log_function self message w =
     (case call_outcome w self message of
        None \<Rightarrow> (Inr (), record_call self message w)
      | Some e \<Rightarrow> (Inl e, record_call self message w))"

text \<open>
  \<^verbatim>\<open>Logger.copy\<close>: \<^verbatim>\<open>self.nlist + [0]\<close> builds a new list object, which the new logger
  stores.
\<close>

definition Logger_copy :: "nat \<Rightarrow> nat action" where
  "Logger_copy self w =
     (let lg = logger_heap w ! self;
          r = length (list_heap w);
          w1 = w\<lparr>list_heap := list_heap w @ [stack w self @ [0]]\<rparr>
      in Logger_init (prefix lg) (log_function lg) (indent_type lg) (Some r) w1)"

text \<open>
  Lines 100 to 102 of \<^verbatim>\<open>log\<close>: \<^verbatim>\<open>message.startswith(":")\<close> is evaluated on whatever
  the message is; a leading sigil pops a frame and is cut off (\<^verbatim>\<open>message[1:]\<close>).
\<close>

definition log_leading :: "nat \<Rightarrow> pyval \<Rightarrow> pyval action" where
  "log_leading self message =
     then_do (lift (py_startswith message))
       (\<lambda>starts. if starts
                 then then_do (Logger_deindent self) (\<lambda>_. lift (py_slice_from_1 message))
                 else return message)"

text \<open>
  \<^verbatim>\<open>if message and message != " "\<close>: the comparison is evaluated only for a truthy
  message.
\<close>

definition shown :: "pyval \<Rightarrow> bool action" where
  "shown message =
     then_do (lift (py_truthy message)) (\<lambda>t. if t then lift (py_ne_space message) else return False)"

text \<open>
  Lines 104 to 112 of \<^verbatim>\<open>log\<close>: a trailing sigil of a \<^verbatim>\<open>str\<close> is cut off
  (\<^verbatim>\<open>message[:-1]\<close>), the message is handed to the log function unless it is falsy or
  equal to one space, and a trailing sigil then pushes a zero frame.
\<close>

definition log_emit :: "nat \<Rightarrow> pyval \<Rightarrow> unit action" where
  "log_emit self message0 =
     (let end_indent = str_endswith_colon message0;
          message = (if end_indent then py_slice_to_last message0 else message0)
      in then_do (shown message)
           (\<lambda>sh. then_do (if sh then call_log_function self message else return ())
             (\<lambda>_. if end_indent then Logger_indent self else return ())))"

text \<open>Lines 104 to 114: the above, and \<^verbatim>\<open>return self.copy()\<close>.\<close>

definition log_tail :: "nat \<Rightarrow> pyval \<Rightarrow> nat action" where
  "log_tail self message = then_do (log_emit self message) (\<lambda>_. Logger_copy self)"

text \<open>\<^verbatim>\<open>Logger.log\<close>. The counter is incremented first.\<close>

definition Logger_log :: "nat \<Rightarrow> pyval \<Rightarrow> nat action" where
  "Logger_log self message =
     then_do (incr_last self) (\<lambda>_. then_do (log_leading self message) (log_tail self))"

text \<open>
  For a message that is a string: the text that line 102 and line 106 leave, and the
  test of line 108.
\<close>

definition cut_leading :: "string \<Rightarrow> string" where
  "cut_leading message = (if startswith_colon message then drop 1 message else message)"

definition cut_trailing :: "string \<Rightarrow> string" where
  "cut_trailing message = (if endswith_colon message then butlast message else message)"

definition rendered :: "string \<Rightarrow> bool" where
  "rendered message \<longleftrightarrow> message \<noteq> [] \<and> message \<noteq> '' ''"

section \<open>The context variable and the with statement\<close>

text \<open>
  \<^verbatim>\<open>global_logger = Logger("GLOBAL")\<close>, with the default log function and the default
  indent, is the first object created (its address is \<open>0\<close>), and it is the default of
  the context variable. \<open>init_world\<close> is the store once the module is loaded.
\<close>

definition global_logger :: nat where
  "global_logger = 0"

definition empty_world :: world where
  "empty_world =
     \<lparr>list_heap = [], logger_heap = [], logger_contextvar = None, sink_calls = [], stdout = []\<rparr>"

definition init_world :: world where
  "init_world = snd (Logger_init ''GLOBAL'' Std_log_function STD_SPACE_INDENT None empty_world)"

definition get_current_logger :: "world \<Rightarrow> nat" where
  "get_current_logger w = (case logger_contextvar w of None \<Rightarrow> global_logger | Some l \<Rightarrow> l)"

text \<open>The module-level \<^verbatim>\<open>log\<close>.\<close>

definition log :: "pyval \<Rightarrow> nat action" where
  "log message w = Logger_log (get_current_logger w) message w"

text \<open>\<^verbatim>\<open>Logger.__enter__\<close>.\<close>

definition Logger_enter :: "nat \<Rightarrow> unit action" where
  "Logger_enter self w =
     (let lg = logger_heap w ! self;
          w1 = w\<lparr>logger_heap := (logger_heap w)[self := lg\<lparr>prev_logger := Some (get_current_logger w)\<rparr>]\<rparr>
      in (Inr (), w1\<lparr>logger_contextvar := Some self\<rparr>))"

text \<open>
  \<^verbatim>\<open>Logger.__exit__\<close>: the frame is popped first; reading an unset \<^verbatim>\<open>prev_logger\<close> is
  an AttributeError. It returns \<^verbatim>\<open>None\<close>, so it never suppresses an exception.
\<close>

definition Logger_exit :: "nat \<Rightarrow> unit action" where
  "Logger_exit self =
     then_do (Logger_deindent self)
       (\<lambda>_ w. case prev_logger (logger_heap w ! self) of
                 None \<Rightarrow> (Inl AttributeError, w)
               | Some p \<Rightarrow> (Inr (), w\<lparr>logger_contextvar := Some p\<rparr>))"

text \<open>
  \<^verbatim>\<open>with mgr: body\<close>. An exception of \<^verbatim>\<open>__enter__\<close> skips body and exit. Otherwise
  \<^verbatim>\<open>__exit__\<close> runs whether the body returned or raised; an exception of
  \<^verbatim>\<open>__exit__\<close> replaces the outcome of the body, and otherwise the outcome of the
  body (its value or its exception) is the outcome of the statement.
\<close>

definition with_logger :: "nat \<Rightarrow> 'a action \<Rightarrow> 'a action" where
  "with_logger mgr body w =
     (case Logger_enter mgr w of
        (Inl e, w1) \<Rightarrow> (Inl e, w1)
      | (Inr u, w1) \<Rightarrow>
          (case body w1 of
             (r, w2) \<Rightarrow>
               (case Logger_exit mgr w2 of
                  (Inl e, w3) \<Rightarrow> (Inl e, w3)
                | (Inr u', w3) \<Rightarrow> (r, w3))))"

section \<open>The decorator\<close>

text \<open>
  \<^verbatim>\<open>message_or_func\<close>: a constant message, or a callable applied to the dictionary of
  the bound arguments. The callable is modelled as a function that returns a message or
  raises. A dictionary is an association list with distinct keys in insertion order.
\<close>

datatype message_or_func =
    Message pyval
  | Func "(string \<times> pyval) list \<Rightarrow> error + pyval"

text \<open>\<^verbatim>\<open>d[k] = v\<close> for each pair in turn: a later pair overwrites an earlier one.\<close>

definition dict_update_all :: "(string \<times> pyval) list \<Rightarrow> (string \<times> pyval) list \<Rightarrow> (string \<times> pyval) list" where
  "dict_update_all d ps = foldl (\<lambda>d' (k, v). AList.update k v d') d ps"

text \<open>
  \<^verbatim>\<open>{key: value for key, value in zip(func_args, args)} | kwargs\<close>, where
  \<open>func_args\<close> is \<^verbatim>\<open>inspect.getfullargspec(decorated_func)[0]\<close>, the names of the
  positional parameters of the decorated function.
\<close>

definition assigned_args :: "string list \<Rightarrow> pyval list \<Rightarrow> (string \<times> pyval) list \<Rightarrow> (string \<times> pyval) list" where
  "assigned_args func_args args kwargs =
     dict_update_all (dict_update_all [] (zip func_args args)) kwargs"

text \<open>The computation of \<^verbatim>\<open>message_\<close>, the same text in both wrappers.\<close>

definition compute_message ::
  "message_or_func \<Rightarrow> string list \<Rightarrow> pyval list \<Rightarrow> (string \<times> pyval) list \<Rightarrow> error + pyval" where
  "compute_message mf func_args args kwargs =
     (case mf of
        Func f \<Rightarrow> f (assigned_args func_args args kwargs)
      | Message m \<Rightarrow> Inr m)"

text \<open>
  The synchronous \<^verbatim>\<open>wrapper\<close>:
  \<^verbatim>\<open>with log(message_): return decorated_func(*args, **kwargs)\<close>. The decorated
  function is any action on the store. The asynchronous wrapper has the same statements
  with the call awaited; the suspension of a coroutine is not part of this model.
\<close>

definition wrapper ::
  "message_or_func \<Rightarrow> string list \<Rightarrow> (pyval list \<Rightarrow> (string \<times> pyval) list \<Rightarrow> pyval action)
     \<Rightarrow> pyval list \<Rightarrow> (string \<times> pyval) list \<Rightarrow> pyval action" where
  "wrapper mf func_args decorated_func args kwargs w =
     (case compute_message mf func_args args kwargs of
        Inl e \<Rightarrow> (Inl e, w)
      | Inr message \<Rightarrow>
          then_do (log message) (\<lambda>lg. with_logger lg (decorated_func args kwargs)) w)"

section \<open>Auxiliary notions for the statements\<close>

text \<open>
  The stack a string message is rendered against, from the stack \<open>ns\<close> before the call:
  the last counter incremented, or that frame dropped when the message has a leading sigil.
\<close>

definition level_stack :: "string \<Rightarrow> int list \<Rightarrow> int list" where
  "level_stack message ns =
     (if startswith_colon message then butlast ns else butlast ns @ [last ns + 1])"

text \<open>
  The exception, if any, with which the log function of the logger leaves the call that
  \<^verbatim>\<open>log\<close> makes for this string message from a non-empty stack; \<open>None\<close> when it
  returns or is not called. \<^verbatim>\<open>std_log_function\<close> always returns on a string.
\<close>

definition sink_exception :: "world \<Rightarrow> nat \<Rightarrow> string \<Rightarrow> error option" where
  "sink_exception w self message =
     (let lg = logger_heap w ! self; m = cut_trailing (cut_leading message)
      in if rendered m
         then sink_outcome (log_function lg) (VStr m) (prefix lg)
                (level_stack message (stack w self)) (indent_type lg)
         else None)"

text \<open>
  A sequence of calls \<^verbatim>\<open>logger.log(m)\<close> on one logger, one per message of the list.
  The value or exception of each call is dropped (the caller goes on to the next call).
\<close>

fun log_calls :: "nat \<Rightarrow> string list \<Rightarrow> world \<Rightarrow> world" where
  "log_calls self [] w = w"
| "log_calls self (m # ms) w = log_calls self ms (snd (Logger_log self (VStr m) w))"

text \<open>The initial store with the stack of the global logger advanced to \<open>ns\<close>.\<close>

definition world_at :: "int list \<Rightarrow> world" where
  "world_at ns = init_world\<lparr>list_heap := [ns]\<rparr>"

text \<open>
  The store after one call \<^verbatim>\<open>log(":")\<close> in the initial store: the root logger has an
  empty depth stack.
\<close>

definition closed_root :: world where
  "closed_root = snd (log (VStr '':'') init_world)"

text \<open>
  A log function that raises on every call, and the store after
  \<^verbatim>\<open>Logger("T", failing_sink)\<close> in the initial store: the new logger has address \<open>1\<close>.
\<close>

definition failing_sink :: sink where
  "failing_sink = Custom_log_function (\<lambda>message pre ns ind. Some (Raised ''sink''))"

definition failing_world :: world where
  "failing_world = snd (Logger_init ''T'' failing_sink STD_SPACE_INDENT None init_world)"

text \<open>
  A decorated function that logs the message \<open>":"\<close> twice and then returns or raises
  as \<open>outcome\<close> says:
  \<^verbatim>\<open>def f(): log(":"); log(":"); return None\<close>, or with \<^verbatim>\<open>raise\<close> as its last statement.
\<close>

definition close_twice :: "error + pyval \<Rightarrow> pyval list \<Rightarrow> (string \<times> pyval) list \<Rightarrow> pyval action" where
  "close_twice outcome args kwargs =
     then_do (log (VStr '':'')) (\<lambda>_. then_do (log (VStr '':'')) (\<lambda>_ w. (outcome, w)))"

text \<open>A decorated function that does nothing: \<^verbatim>\<open>def f(): return None\<close>.\<close>

definition return_none :: "pyval list \<Rightarrow> (string \<times> pyval) list \<Rightarrow> pyval action" where
  "return_none args kwargs = return VNone"


text \<open>
  The action changes no logger object, creates no list and changes no list other than
  the depth stack of the logger \<open>l\<close>.
\<close>

definition only_stack :: "nat \<Rightarrow> 'a action \<Rightarrow> bool" where
  "only_stack l m \<longleftrightarrow>
     (\<forall>w. logger_heap (snd (m w)) = logger_heap w
        \<and> length (list_heap (snd (m w))) = length (list_heap w)
        \<and> (\<forall>r. r \<noteq> nlist (logger_heap w ! l) \<longrightarrow> list_heap (snd (m w)) ! r = list_heap w ! r))"

section \<open>Basic facts about the store and the operations\<close>

lemma init_world_explicit:
  "init_world =
     \<lparr>list_heap = [[0]],
      logger_heap = [\<lparr>log_function = Std_log_function, prefix = ''GLOBAL'', nlist = 0,
                      indent_type = STD_SPACE_INDENT, prev_logger = None\<rparr>],
      logger_contextvar = None, sink_calls = [], stdout = []\<rparr>"
  by (simp add: init_world_def Logger_init_def empty_world_def)

lemma global_logger_created:
  "fst (Logger_init ''GLOBAL'' Std_log_function STD_SPACE_INDENT None empty_world) = Inr global_logger"
  by (simp add: Logger_init_def empty_world_def global_logger_def)

lemma stack_set_stack [simp]: "valid w l \<Longrightarrow> stack (set_stack l ns w) l = ns"
  by (simp add: stack_def set_stack_def valid_def)

lemma valid_set_stack [simp]: "valid (set_stack l ns w) l' = valid w l'"
  by (simp add: set_stack_def valid_def)

lemma logger_heap_set_stack [simp]: "logger_heap (set_stack l ns w) = logger_heap w"
  by (simp add: set_stack_def)

lemma sink_calls_set_stack [simp]: "sink_calls (set_stack l ns w) = sink_calls w"
  by (simp add: set_stack_def)

lemma stdout_set_stack [simp]: "stdout (set_stack l ns w) = stdout w"
  by (simp add: set_stack_def)

lemma contextvar_set_stack [simp]: "logger_contextvar (set_stack l ns w) = logger_contextvar w"
  by (simp add: set_stack_def)

lemma set_stack_twice [simp]: "set_stack l ns (set_stack l ms w) = set_stack l ns w"
  by (simp add: set_stack_def)

lemma incr_last_result:
  "stack w l \<noteq> [] \<Longrightarrow>
   incr_last l w = (Inr (), set_stack l (butlast (stack w l) @ [last (stack w l) + 1]) w)"
  by (simp add: incr_last_def)

lemma deindent_result:
  "stack w l \<noteq> [] \<Longrightarrow> Logger_deindent l w = (Inr (), set_stack l (butlast (stack w l)) w)"
  by (simp add: Logger_deindent_def)

lemma log_leading_result:
  "stack w l \<noteq> [] \<Longrightarrow>
   log_leading l (VStr s) w =
     (Inr (VStr (cut_leading s)),
      if startswith_colon s then set_stack l (butlast (stack w l)) w else w)"
  by (simp add: log_leading_def cut_leading_def then_do_def return_def lift_def deindent_result)

lemma shown_str [simp]: "shown (VStr m) w = (Inr (rendered m), w)"
  by (simp add: shown_def then_do_def lift_def return_def rendered_def)

lemma shown_user_string [simp]: "shown (VUserString m) w = (Inr (rendered m), w)"
  by (simp add: shown_def then_do_def lift_def return_def rendered_def)

lemma copy_result:
  "Logger_copy l w =
     (Inr (length (logger_heap w)),
      w\<lparr>list_heap := list_heap w @ [stack w l @ [0]],
        logger_heap := logger_heap w @
          [\<lparr>log_function = log_function (logger_heap w ! l), prefix = prefix (logger_heap w ! l),
            nlist = length (list_heap w), indent_type = indent_type (logger_heap w ! l),
            prev_logger = None\<rparr>]\<rparr>)"
  by (simp add: Logger_copy_def Logger_init_def Let_def)

lemma log_tail_result:
  "log_tail l (VStr s) w =
     (let m = cut_trailing s;
          w1 = (if rendered m then record_call l (VStr m) w else w)
      in case (if rendered m then call_outcome w l (VStr m) else None) of
           Some e \<Rightarrow> (Inl e, w1)
         | None \<Rightarrow> Logger_copy l (if endswith_colon s then set_stack l (stack w1 l @ [0]) w1 else w1))"
proof -
  have a: "endswith_colon s \<Longrightarrow> cut_trailing s = butlast s"
    and b: "\<not> endswith_colon s \<Longrightarrow> cut_trailing s = s"
    by (simp_all add: cut_trailing_def)
  show ?thesis
  proof (cases "endswith_colon s")
    case True
    show ?thesis
      by (cases "rendered (butlast s)")
         (simp_all add: log_tail_def log_emit_def a [OF True] True then_do_def return_def
            Logger_indent_def call_log_function_def Let_def split: option.split)
  next
    case False
    show ?thesis
      by (cases "rendered s")
         (simp_all add: log_tail_def log_emit_def b [OF False] False then_do_def return_def
            Logger_indent_def call_log_function_def Let_def split: option.split)
  qed
qed

lemma stack_record_call [simp]: "stack (record_call l m w) l' = stack w l'"
  by (simp add: record_call_def stack_def Let_def)

lemma valid_record_call [simp]: "valid (record_call l m w) l' = valid w l'"
  by (simp add: record_call_def valid_def Let_def)

lemma logger_heap_record_call [simp]: "logger_heap (record_call l m w) = logger_heap w"
  by (simp add: record_call_def Let_def)

lemma list_heap_record_call [simp]: "list_heap (record_call l m w) = list_heap w"
  by (simp add: record_call_def Let_def)

lemma contextvar_record_call [simp]: "logger_contextvar (record_call l m w) = logger_contextvar w"
  by (simp add: record_call_def Let_def)

lemma sink_calls_record_call [simp]:
  "sink_calls (record_call l m w) =
     sink_calls w @ [(m, prefix (logger_heap w ! l), stack w l, indent_type (logger_heap w ! l))]"
  by (simp add: record_call_def Let_def)

lemma call_outcome_set_stack:
  "valid w l \<Longrightarrow>
   call_outcome (set_stack l ns w) l m =
     sink_outcome (log_function (logger_heap w ! l)) m (prefix (logger_heap w ! l)) ns
       (indent_type (logger_heap w ! l))"
  by (simp add: call_outcome_def Let_def)

lemma fst_copy [simp]: "fst (Logger_copy l w) = Inr (length (logger_heap w))"
  by (simp add: copy_result)

lemma stack_copy_old [simp]: "valid w l' \<Longrightarrow> stack (snd (Logger_copy l w)) l' = stack w l'"
  by (simp add: copy_result stack_def valid_def nth_append)

lemma valid_copy_old [simp]: "valid w l' \<Longrightarrow> valid (snd (Logger_copy l w)) l'"
  by (simp add: copy_result valid_def nth_append)

lemma logger_copy_old [simp]:
  "l' < length (logger_heap w) \<Longrightarrow> logger_heap (snd (Logger_copy l w)) ! l' = logger_heap w ! l'"
  by (simp add: copy_result nth_append)

lemma length_logger_heap_copy [simp]:
  "length (logger_heap (snd (Logger_copy l w))) = Suc (length (logger_heap w))"
  by (simp add: copy_result)

lemma sink_calls_copy [simp]: "sink_calls (snd (Logger_copy l w)) = sink_calls w"
  by (simp add: copy_result)

lemma stdout_copy [simp]: "stdout (snd (Logger_copy l w)) = stdout w"
  by (simp add: copy_result)

lemma contextvar_copy [simp]: "logger_contextvar (snd (Logger_copy l w)) = logger_contextvar w"
  by (simp add: copy_result)

lemma log_str_result:
  assumes "valid w l" and "stack w l \<noteq> []"
  shows "Logger_log l (VStr s) w =
           log_tail l (VStr (cut_leading s))
             (set_stack l (if startswith_colon s then butlast (stack w l)
                           else butlast (stack w l) @ [last (stack w l) + 1]) w)"
  using assms
  by (simp add: Logger_log_def then_do_def incr_last_result log_leading_result)

text \<open>What \<open>log_tail\<close> returns and what it leaves in the store.\<close>

lemma log_tail_fst:
  "fst (log_tail l (VStr s) w) =
     (case (if rendered (cut_trailing s) then call_outcome w l (VStr (cut_trailing s)) else None) of
        Some e \<Rightarrow> Inl e | None \<Rightarrow> Inr (length (logger_heap w)))"
  by (simp add: log_tail_result Let_def split: option.split)

lemma log_tail_sink_calls:
  "sink_calls (snd (log_tail l (VStr s) w)) =
     sink_calls w @
       (if rendered (cut_trailing s)
        then [(VStr (cut_trailing s), prefix (logger_heap w ! l), stack w l, indent_type (logger_heap w ! l))]
        else [])"
  by (simp add: log_tail_result Let_def split: option.split)

lemma log_tail_stack:
  "valid w l \<Longrightarrow>
   stack (snd (log_tail l (VStr s) w)) l =
     (if endswith_colon s \<and> \<not> isl (fst (log_tail l (VStr s) w)) then stack w l @ [0] else stack w l)"
  by (simp add: log_tail_result Let_def split: option.split)

lemma log_tail_valid: "valid w l' \<Longrightarrow> valid (snd (log_tail l (VStr s) w)) l'"
  by (simp add: log_tail_result Let_def split: option.split)

lemma log_tail_logger:
  "l' < length (logger_heap w) \<Longrightarrow> logger_heap (snd (log_tail l (VStr s) w)) ! l' = logger_heap w ! l'"
  by (simp add: log_tail_result Let_def split: option.split)


lemma log_empty_stack: "stack w l = [] \<Longrightarrow> Logger_log l message w = (Inl IndexError, w)"
  by (simp add: Logger_log_def then_do_def incr_last_def)

lemma valid_world_at [simp]: "valid (world_at ns) global_logger"
  by (simp add: valid_def world_at_def init_world_explicit global_logger_def)

lemma stack_world_at [simp]: "stack (world_at ns) global_logger = ns"
  by (simp add: stack_def world_at_def init_world_explicit global_logger_def)

lemma logger_world_at [simp]:
  "prefix (logger_heap (world_at ns) ! global_logger) = ''GLOBAL''"
  "indent_type (logger_heap (world_at ns) ! global_logger) = STD_SPACE_INDENT"
  "log_function (logger_heap (world_at ns) ! global_logger) = Std_log_function"
  "prev_logger (logger_heap (world_at ns) ! global_logger) = None"
  "nlist (logger_heap (world_at ns) ! global_logger) = 0"
  by (simp_all add: world_at_def init_world_explicit global_logger_def)

lemma fields_world_at [simp]:
  "sink_calls (world_at ns) = []"
  "stdout (world_at ns) = []"
  "logger_contextvar (world_at ns) = None"
  "list_heap (world_at ns) = [ns]"
  "length (logger_heap (world_at ns)) = 1"
  by (simp_all add: world_at_def init_world_explicit)

lemma startswith_colon_Cons [simp]: "startswith_colon (c # rest) = (c = CHR '':'')"
  by (simp add: startswith_colon_def)

lemma log_steps:
  "Logger_log l (VStr (CHR '':'' # rest)) w =
     then_do (incr_last l) (\<lambda>_. then_do (Logger_deindent l) (\<lambda>_. log_tail l (VStr rest))) w"
  by (simp add: Logger_log_def log_leading_def then_do_def return_def lift_def
        split: prod.split sum.split)

lemma log_str_fst:
  assumes "valid w l" and "stack w l \<noteq> []"
  shows "fst (Logger_log l (VStr s) w) =
     (case (if rendered (cut_trailing (cut_leading s))
            then sink_outcome (log_function (logger_heap w ! l)) (VStr (cut_trailing (cut_leading s)))
                   (prefix (logger_heap w ! l))
                   (if startswith_colon s then butlast (stack w l)
                    else butlast (stack w l) @ [last (stack w l) + 1])
                   (indent_type (logger_heap w ! l))
            else None) of
        Some e \<Rightarrow> Inl e | None \<Rightarrow> Inr (length (logger_heap w)))"
  using assms
  by (simp add: log_str_result log_tail_fst call_outcome_set_stack split: option.split)

lemma log_str_sink_calls:
  assumes "valid w l" and "stack w l \<noteq> []"
  shows "sink_calls (snd (Logger_log l (VStr s) w)) =
     sink_calls w @
       (if rendered (cut_trailing (cut_leading s))
        then [(VStr (cut_trailing (cut_leading s)), prefix (logger_heap w ! l),
               (if startswith_colon s then butlast (stack w l)
                else butlast (stack w l) @ [last (stack w l) + 1]),
               indent_type (logger_heap w ! l))]
        else [])"
  using assms
  by (simp add: log_str_result log_tail_sink_calls)

lemma log_str_stack:
  assumes "valid w l" and "stack w l \<noteq> []"
  shows "stack (snd (Logger_log l (VStr s) w)) l =
     (if startswith_colon s then butlast (stack w l) else butlast (stack w l) @ [last (stack w l) + 1])
     @ (if endswith_colon (cut_leading s) \<and> \<not> isl (fst (Logger_log l (VStr s) w)) then [0] else [])"
  using assms
  by (simp add: log_str_result log_tail_stack)

lemma log_str_valid:
  assumes "valid w l" and "stack w l \<noteq> []"
  shows "valid (snd (Logger_log l (VStr s) w)) l"
  using assms by (simp add: log_str_result log_tail_valid)

lemma log_str_logger:
  assumes "valid w l" and "stack w l \<noteq> []"
  shows "logger_heap (snd (Logger_log l (VStr s) w)) ! l = logger_heap w ! l"
  using assms by (simp add: log_str_result log_tail_logger valid_def)

lemma stdout_record_call [simp]:
  "stdout (record_call l m w) =
     stdout w @ sink_prints (log_function (logger_heap w ! l)) m (prefix (logger_heap w ! l))
                  (stack w l) (indent_type (logger_heap w ! l))"
  by (simp add: record_call_def Let_def)

lemma log_tail_stdout:
  "stdout (snd (log_tail l (VStr s) w)) =
     stdout w @
       (if rendered (cut_trailing s)
        then sink_prints (log_function (logger_heap w ! l)) (VStr (cut_trailing s))
               (prefix (logger_heap w ! l)) (stack w l) (indent_type (logger_heap w ! l))
        else [])"
  by (simp add: log_tail_result Let_def split: option.split)

lemma log_str_stdout:
  assumes "valid w l" and "stack w l \<noteq> []"
  shows "stdout (snd (Logger_log l (VStr s) w)) =
     stdout w @
       (if rendered (cut_trailing (cut_leading s))
        then sink_prints (log_function (logger_heap w ! l)) (VStr (cut_trailing (cut_leading s)))
               (prefix (logger_heap w ! l))
               (if startswith_colon s then butlast (stack w l)
                else butlast (stack w l) @ [last (stack w l) + 1])
               (indent_type (logger_heap w ! l))
        else [])"
  using assms
  by (simp add: log_str_result log_tail_stdout)

lemma log_plain_stack:
  assumes "valid w l" and "stack w l \<noteq> []"
    and "\<not> startswith_colon s" and "\<not> endswith_colon s"
  shows "stack (snd (Logger_log l (VStr s) w)) l = butlast (stack w l) @ [last (stack w l) + 1]"
  using assms by (simp add: log_str_stack cut_leading_def)

lemma log_calls_plain:
  assumes "valid w l" and "stack w l \<noteq> []"
    and "\<forall>m \<in> set ms. \<not> startswith_colon m \<and> \<not> endswith_colon m"
  shows "stack (log_calls l ms w) l = butlast (stack w l) @ [last (stack w l) + int (length ms)]"
  using assms
proof (induction ms arbitrary: w)
  case Nil
  then show ?case by simp
next
  case (Cons m ms)
  let ?w = "snd (Logger_log l (VStr m) w)"
  have m: "\<not> startswith_colon m" "\<not> endswith_colon m"
    using Cons.prems(3) by simp_all
  have s: "stack ?w l = butlast (stack w l) @ [last (stack w l) + 1]"
    using Cons.prems(1,2) m by (rule log_plain_stack)
  have v: "valid ?w l"
    using Cons.prems(1,2) by (rule log_str_valid)
  have "stack (log_calls l ms ?w) l = butlast (stack ?w l) @ [last (stack ?w l) + int (length ms)]"
    using v s Cons.prems(3) by (intro Cons.IH) simp_all
  then show ?case by (simp add: s)
qed


lemma std_log_line_str [simp]:
  "std_log_line (VStr m) pre ns ind =
     Inr ((if pre \<noteq> [] then ''['' @ pre @ ''] '' else []) @ indent_call ind ns @ m)"
  by (simp add: std_log_line_def)

lemma std_log_line_user_string [simp]:
  "std_log_line (VUserString m) pre ns ind =
     Inr ((if pre \<noteq> [] then ''['' @ pre @ ''] '' else []) @ indent_call ind ns @ m)"
  by (simp add: std_log_line_def)

lemma std_sink_returns:
  "log_function (logger_heap w ! l) = Std_log_function \<Longrightarrow> sink_exception w l s = None"
  by (simp add: sink_exception_def Let_def)

lemma then_do_eq:
  "m w = (r, w1) \<Longrightarrow> then_do m f w = (case r of Inl e \<Rightarrow> (Inl e, w1) | Inr x \<Rightarrow> f x w1)"
  by (simp add: then_do_def split: sum.split)

lemma only_stack_return [simp]: "only_stack l (return x)"
  by (simp add: only_stack_def return_def)

lemma only_stack_raise [simp]: "only_stack l (raise e)"
  by (simp add: only_stack_def raise_def)

lemma only_stack_lift [simp]: "only_stack l (lift r)"
  by (simp add: only_stack_def lift_def)

lemma only_stack_set_stack:
  "logger_heap (set_stack l ns w) = logger_heap w
   \<and> length (list_heap (set_stack l ns w)) = length (list_heap w)
   \<and> (\<forall>r. r \<noteq> nlist (logger_heap w ! l) \<longrightarrow> list_heap (set_stack l ns w) ! r = list_heap w ! r)"
  by (simp add: set_stack_def)

lemma only_stack_incr_last [simp]: "only_stack l (incr_last l)"
  by (simp add: only_stack_def incr_last_def only_stack_set_stack)

lemma only_stack_deindent [simp]: "only_stack l (Logger_deindent l)"
  by (simp add: only_stack_def Logger_deindent_def only_stack_set_stack)

lemma only_stack_indent [simp]: "only_stack l (Logger_indent l)"
  by (simp add: only_stack_def Logger_indent_def only_stack_set_stack)

lemma only_stack_call [simp]: "only_stack l (call_log_function l m)"
  by (simp add: only_stack_def call_log_function_def split: option.split)

lemma only_stack_then_do:
  assumes "only_stack l m" and "\<And>x. only_stack l (f x)"
  shows "only_stack l (then_do m f)"
  unfolding only_stack_def
proof (intro allI)
  fix w
  obtain r w1 where m: "m w = (r, w1)" by (cases "m w")
  have a: "logger_heap w1 = logger_heap w" "length (list_heap w1) = length (list_heap w)"
    "\<And>q. q \<noteq> nlist (logger_heap w ! l) \<Longrightarrow> list_heap w1 ! q = list_heap w ! q"
    using assms(1) m by (auto simp add: only_stack_def dest: spec [of _ w])
  show "logger_heap (snd (then_do m f w)) = logger_heap w \<and>
        length (list_heap (snd (then_do m f w))) = length (list_heap w) \<and>
        (\<forall>q. q \<noteq> nlist (logger_heap w ! l) \<longrightarrow>
             list_heap (snd (then_do m f w)) ! q = list_heap w ! q)"
  proof (cases r)
    case (Inl e)
    then show ?thesis using a by (simp add: then_do_def m)
  next
    case (Inr x)
    have b: "logger_heap (snd (f x w1)) = logger_heap w1"
      "length (list_heap (snd (f x w1))) = length (list_heap w1)"
      "\<And>q. q \<noteq> nlist (logger_heap w1 ! l) \<Longrightarrow> list_heap (snd (f x w1)) ! q = list_heap w1 ! q"
      using assms(2) [of x] by (auto simp add: only_stack_def dest: spec [of _ w1])
    show ?thesis
      using a b by (simp add: then_do_def m Inr)
  qed
qed

lemma only_stack_shown [simp]: "only_stack l (shown m)"
  by (simp add: shown_def only_stack_then_do)

lemma only_stack_log_leading [simp]: "only_stack l (log_leading l m)"
  by (simp add: log_leading_def only_stack_then_do)

lemma only_stack_log_emit [simp]: "only_stack l (log_emit l m)"
  by (simp add: log_emit_def Let_def only_stack_then_do)

lemma only_stack_log_body:
  "only_stack l (then_do (incr_last l) (\<lambda>_. then_do (log_leading l m) (log_emit l)))"
  by (simp add: only_stack_then_do)

lemma log_as_copy:
  "Logger_log l m =
     then_do (then_do (incr_last l) (\<lambda>_. then_do (log_leading l m) (log_emit l)))
       (\<lambda>_. Logger_copy l)"
  by (rule ext) (simp add: Logger_log_def log_tail_def then_do_def split: prod.split sum.split)

lemma log_other_stack:
  assumes "valid w l" and "valid w l'"
    and "nlist (logger_heap w ! l') \<noteq> nlist (logger_heap w ! l)"
  shows "stack (snd (Logger_log l message w)) l' = stack w l'"
proof -
  let ?b = "then_do (incr_last l) (\<lambda>_. then_do (log_leading l message) (log_emit l))"
  obtain r w1 where b: "?b w = (r, w1)" by (cases "?b w")
  have a: "logger_heap w1 = logger_heap w" "length (list_heap w1) = length (list_heap w)"
    "\<And>q. q \<noteq> nlist (logger_heap w ! l) \<Longrightarrow> list_heap w1 ! q = list_heap w ! q"
    using only_stack_log_body [of l message] b
    by (auto simp add: only_stack_def dest: spec [of _ w])
  have s: "stack w1 l' = stack w l'"
    using a assms(3) by (simp add: stack_def)
  have v: "valid w1 l'"
    using a assms(2) by (simp add: valid_def)
  have e: "Logger_log l message w = (case r of Inl e \<Rightarrow> (Inl e, w1) | Inr u \<Rightarrow> Logger_copy l w1)"
    unfolding log_as_copy by (rule then_do_eq [where m = ?b, OF b])
  show ?thesis
    using s v by (cases r) (simp_all add: e)
qed

lemma level_stack_not_leading:
  "\<not> startswith_colon s \<Longrightarrow> level_stack s ns = butlast ns @ [last ns + 1]"
  by (simp add: level_stack_def)

lemma stack_set_stack_other:
  "nlist (logger_heap w ! l') \<noteq> nlist (logger_heap w ! l) \<Longrightarrow>
   stack (set_stack l ns w) l' = stack w l'"
  by (simp add: stack_def set_stack_def)

lemma copy_new_stack:
  "stack (snd (Logger_copy l w)) (length (logger_heap w)) = stack w l @ [0]"
  by (simp add: copy_result stack_def)

lemma copy_new_logger:
  "logger_heap (snd (Logger_copy l w)) ! length (logger_heap w) =
     \<lparr>log_function = log_function (logger_heap w ! l), prefix = prefix (logger_heap w ! l),
      nlist = length (list_heap w), indent_type = indent_type (logger_heap w ! l),
      prev_logger = None\<rparr>"
  by (simp add: copy_result)

lemma valid_copy_new: "valid (snd (Logger_copy l w)) (length (logger_heap w))"
  by (simp add: copy_result valid_def)

lemma list_heap_copy [simp]:
  "list_heap (snd (Logger_copy l w)) = list_heap w @ [stack w l @ [0]]"
  by (simp add: copy_result)

lemma copy_returned:
  assumes "valid w l"
  shows "stack (snd (Logger_copy l w)) (length (logger_heap w)) = stack (snd (Logger_copy l w)) l @ [0]
       \<and> nlist (logger_heap (snd (Logger_copy l w)) ! length (logger_heap w))
           \<noteq> nlist (logger_heap (snd (Logger_copy l w)) ! l)"
proof -
  have "l < length (logger_heap w)" and "nlist (logger_heap w ! l) < length (list_heap w)"
    using assms by (simp_all add: valid_def)
  then show ?thesis
    using assms by (simp add: copy_new_stack copy_new_logger)
qed

lemma length_list_heap_set_stack [simp]:
  "length (list_heap (set_stack l ns w)) = length (list_heap w)"
  by (simp add: set_stack_def)

lemma log_returned_copy:
  assumes "valid w l" and "fst (Logger_log l message w) = Inr c"
  shows "c = length (logger_heap w)
       \<and> stack (snd (Logger_log l message w)) c = stack (snd (Logger_log l message w)) l @ [0]
       \<and> nlist (logger_heap (snd (Logger_log l message w)) ! c)
           \<noteq> nlist (logger_heap (snd (Logger_log l message w)) ! l)"
proof -
  let ?b = "then_do (incr_last l) (\<lambda>_. then_do (log_leading l message) (log_emit l))"
  obtain r w1 where b: "?b w = (r, w1)" by (cases "?b w")
  have a: "logger_heap w1 = logger_heap w" "length (list_heap w1) = length (list_heap w)"
    using only_stack_log_body [of l message] b
    by (auto simp add: only_stack_def dest: spec [of _ w])
  have v: "valid w1 l"
    using a assms(1) by (simp add: valid_def)
  have e0: "Logger_log l message w = (case r of Inl e \<Rightarrow> (Inl e, w1) | Inr u \<Rightarrow> Logger_copy l w1)"
    unfolding log_as_copy by (rule then_do_eq [where m = ?b, OF b])
  obtain u where r: "r = Inr u"
    using assms(2) by (cases r) (simp_all add: e0)
  have e: "Logger_log l message w = Logger_copy l w1"
    by (simp add: e0 r)
  have c: "c = length (logger_heap w)"
    using assms(2) a by (simp add: e)
  show ?thesis
    using copy_returned [OF v] c a(1) unfolding e by simp
qed

lemma init_world_at: "init_world = world_at [0]"
  by (simp add: world_at_def init_world_explicit)

lemma exit_result:
  assumes "stack w l \<noteq> []" and "prev_logger (logger_heap w ! l) = Some p"
  shows "Logger_exit l w =
           (Inr (), (set_stack l (butlast (stack w l)) w)\<lparr>logger_contextvar := Some p\<rparr>)"
  using assms by (simp add: Logger_exit_def then_do_def deindent_result)

lemma exit_empty: "stack w l = [] \<Longrightarrow> Logger_exit l w = (Inl IndexError, w)"
  by (simp add: Logger_exit_def then_do_def Logger_deindent_def)

lemma fst_enter [simp]: "fst (Logger_enter l w) = Inr ()"
  by (simp add: Logger_enter_def Let_def)

lemma current_enter [simp]: "get_current_logger (snd (Logger_enter l w)) = l"
  by (simp add: Logger_enter_def Let_def get_current_logger_def)

lemma prev_enter:
  "l < length (logger_heap w) \<Longrightarrow>
   prev_logger (logger_heap (snd (Logger_enter l w)) ! l) = Some (get_current_logger w)"
  by (simp add: Logger_enter_def Let_def)

lemma stack_enter [simp]: "valid w l' \<Longrightarrow> stack (snd (Logger_enter l w)) l' = stack w l'"
  by (cases "l = l'") (simp_all add: Logger_enter_def Let_def stack_def valid_def)

lemma valid_enter [simp]: "valid w l' \<Longrightarrow> valid (snd (Logger_enter l w)) l'"
  by (cases "l = l'") (simp_all add: Logger_enter_def Let_def valid_def)

lemma stack_contextvar_update [simp]: "stack (w\<lparr>logger_contextvar := x\<rparr>) l = stack w l"
  by (simp add: stack_def)




lemma current_init_world [simp]: "get_current_logger init_world = global_logger"
  by (simp add: get_current_logger_def init_world_explicit)

lemma stack_closed_root: "stack closed_root global_logger = []"
proof -
  have v: "valid (world_at [0]) global_logger" by simp
  have n: "stack (world_at [0]) global_logger \<noteq> []" by simp
  have c: "startswith_colon '':''" "cut_leading '':'' = []" "\<not> endswith_colon []"
    by (simp_all add: cut_leading_def endswith_colon_def)
  show ?thesis
    using log_str_stack [OF v n, of "'':''"] c
    by (simp add: closed_root_def log_def init_world_at get_current_logger_def)
qed

section \<open>Sigils\<close>

text \<open>
  C1, as the code has it. For a logger whose depth stack is not empty and a string
  message that begins with \<open>":"\<close>: the first statement of \<^verbatim>\<open>log\<close> increments the last
  counter by one, \<^verbatim>\<open>deindent\<close> then pops that very frame, the sigil is cut off, and the
  rest of \<^verbatim>\<open>log\<close> runs on the remaining message with the parent's stack: the call of
  the log function, if the message is rendered, receives the stack without its last
  frame, the counters of the parent levels as they were, and the incremented counter
  occurs nowhere afterwards (a frame pushed later starts at zero). On an empty depth
  stack \<^verbatim>\<open>log\<close> raises IndexError at the increment and changes nothing.
\<close>

theorem log_leading_sigil:
  assumes "valid w self"
  shows
    "(let ns = stack w self;
          lg = logger_heap w ! self;
          m = cut_trailing rest;
          res = Logger_log self (VStr (CHR '':'' # rest)) w
      in (ns = [] \<longrightarrow> res = (Inl IndexError, w))
       \<and> (ns \<noteq> [] \<longrightarrow>
            incr_last self w = (Inr (), set_stack self (butlast ns @ [last ns + 1]) w)
          \<and> Logger_deindent self (set_stack self (butlast ns @ [last ns + 1]) w)
              = (Inr (), set_stack self (butlast ns) w)
          \<and> res = then_do (incr_last self)
                    (\<lambda>_. then_do (Logger_deindent self) (\<lambda>_. log_tail self (VStr rest))) w
          \<and> res = log_tail self (VStr rest) (set_stack self (butlast ns) w)
          \<and> sink_calls (snd res) =
              sink_calls w @ (if rendered m then [(VStr m, prefix lg, butlast ns, indent_type lg)] else [])
          \<and> stack (snd res) self =
              (if endswith_colon rest \<and> \<not> isl (fst res) then butlast ns @ [0] else butlast ns)))"
proof (cases "stack w self = []")
  case True
  then show ?thesis by (simp add: log_empty_stack)
next
  case False
  let ?w1 = "set_stack self (butlast (stack w self)) w"
  let ?wi = "set_stack self (butlast (stack w self) @ [last (stack w self) + 1]) w"
  have i: "incr_last self w = (Inr (), ?wi)"
    using False by (rule incr_last_result)
  have d: "Logger_deindent self ?wi = (Inr (), ?w1)"
    using assms by (simp add: Logger_deindent_def)
  have r: "Logger_log self (VStr (CHR '':'' # rest)) w = log_tail self (VStr rest) ?w1"
    using assms False by (simp add: log_str_result cut_leading_def)
  have v: "valid ?w1 self" using assms by simp
  have c: "sink_calls (snd (log_tail self (VStr rest) ?w1)) =
      sink_calls w @ (if rendered (cut_trailing rest)
        then [(VStr (cut_trailing rest), prefix (logger_heap w ! self), butlast (stack w self),
               indent_type (logger_heap w ! self))] else [])"
    using assms by (simp add: log_tail_sink_calls)
  have s: "stack (snd (log_tail self (VStr rest) ?w1)) self =
      (if endswith_colon rest \<and> \<not> isl (fst (log_tail self (VStr rest) ?w1))
       then butlast (stack w self) @ [0] else butlast (stack w self))"
    using assms by (simp add: log_tail_stack [OF v])
  show ?thesis
    unfolding Let_def r [symmetric] log_steps [symmetric]
    using False i d r c s by simp
qed

theorem log_leading_sigil_witness:
  "valid (world_at [2, 4]) global_logger \<and> stack (world_at [2, 4]) global_logger \<noteq> []
   \<and> incr_last global_logger (world_at [2, 4]) = (Inr (), set_stack global_logger [2, 5] (world_at [2, 4]))
   \<and> sink_calls (snd (Logger_log global_logger (VStr '':done'') (world_at [2, 4]))) =
        [(VStr ''done'', ''GLOBAL'', [2], STD_SPACE_INDENT)]
   \<and> stack (snd (Logger_log global_logger (VStr '':done'') (world_at [2, 4]))) global_logger = [2]"
proof -
  have v: "valid (world_at [2, 4]) global_logger"
    by simp
  have n: "stack (world_at [2, 4]) global_logger \<noteq> []"
    by simp
  have e: "\<not> endswith_colon ''done''" "rendered (cut_trailing ''done'')" "cut_trailing ''done'' = ''done''"
    by (simp_all add: endswith_colon_def rendered_def cut_trailing_def)
  note t = log_leading_sigil [OF v, of "''done''", unfolded Let_def, THEN conjunct2, rule_format, OF n]
  note t1 = t [THEN conjunct1]
  note t5 = t [THEN conjunct2, THEN conjunct2, THEN conjunct2, THEN conjunct2]
  show ?thesis
    using t1 t5 v n e by simp
qed

text \<open>
  The claim C1 as stated, for every logger state, fails in the state that one
  \<^verbatim>\<open>log(":")\<close> on the root logger leaves: the depth stack is empty, and
  \<^verbatim>\<open>log(":x")\<close> raises IndexError with nothing incremented, popped or rendered.
\<close>

theorem log_leading_sigil_counterexample:
  "stack closed_root global_logger = []
   \<and> Logger_log global_logger (VStr '':x'') closed_root = (Inl IndexError, closed_root)"
  by (simp add: stack_closed_root log_empty_stack)

text \<open>
  C2, as the code has it. For a logger whose depth stack is not empty and a string
  message that ends with \<open>":"\<close> once a leading sigil is cut off: the log function, if
  the message is rendered, receives the message without the trailing sigil and the stack
  of the current level (no zero frame yet). If that call raises, \<^verbatim>\<open>log\<close> raises the
  same and no frame is pushed. If it returns (or the message is not rendered),
  \<^verbatim>\<open>log\<close> returns and the stack is that of the current level with a zero frame
  appended; in the next \<^verbatim>\<open>log\<close> call on that logger the increment makes the new last
  counter \<open>1\<close> whatever the counters below it are; a next message without a leading
  sigil is rendered with that stack, which ends in \<open>1\<close>, and a next message with a
  leading sigil pops the new frame and is rendered with the stack of the level before.
  On an empty depth stack \<^verbatim>\<open>log\<close> raises IndexError and changes nothing.
\<close>

theorem log_trailing_sigil:
  assumes "valid w self" and "endswith_colon (cut_leading s)"
  shows
    "(let lg = logger_heap w ! self;
          ns = stack w self;
          level = level_stack s ns;
          m = butlast (cut_leading s);
          res = Logger_log self (VStr s) w;
          nxt = Logger_log self (VStr s2) (snd res)
      in (ns = [] \<longrightarrow> res = (Inl IndexError, w))
       \<and> (ns \<noteq> [] \<longrightarrow>
            sink_calls (snd res) =
              sink_calls w @ (if rendered m then [(VStr m, prefix lg, level, indent_type lg)] else [])
          \<and> (sink_exception w self s = Some e \<longrightarrow>
                fst res = Inl e \<and> stack (snd res) self = level)
          \<and> (sink_exception w self s = None \<longrightarrow>
                fst res = Inr (length (logger_heap w))
              \<and> stack (snd res) self = level @ [0]
              \<and> stack (snd (incr_last self (snd res))) self = level @ [1]
              \<and> (\<not> startswith_colon s2 \<longrightarrow>
                   sink_calls (snd nxt) =
                     sink_calls (snd res) @
                       (if rendered (cut_trailing s2)
                        then [(VStr (cut_trailing s2), prefix lg, level @ [1], indent_type lg)] else [])
                   \<and> take (Suc (length level)) (stack (snd nxt) self) = level @ [1])
              \<and> (startswith_colon s2 \<longrightarrow>
                   sink_calls (snd nxt) =
                     sink_calls (snd res) @
                       (if rendered (cut_trailing (drop 1 s2))
                        then [(VStr (cut_trailing (drop 1 s2)), prefix lg, level, indent_type lg)]
                        else [])))))"
proof (cases "stack w self = []")
  case True
  then show ?thesis by (simp add: log_empty_stack)
next
  case False
  note ne = False
  let ?res = "Logger_log self (VStr s) w"
  let ?level = "level_stack s (stack w self)"
  have m: "cut_trailing (cut_leading s) = butlast (cut_leading s)"
    using assms(2) by (simp add: cut_trailing_def)
  have f: "fst ?res = (case sink_exception w self s of Some e \<Rightarrow> Inl e
                        | None \<Rightarrow> Inr (length (logger_heap w)))"
    by (simp add: log_str_fst [OF assms(1) ne] sink_exception_def level_stack_def Let_def)
  have c: "sink_calls (snd ?res) =
      sink_calls w @ (if rendered (butlast (cut_leading s))
        then [(VStr (butlast (cut_leading s)), prefix (logger_heap w ! self), ?level,
               indent_type (logger_heap w ! self))] else [])"
    using m by (simp add: log_str_sink_calls [OF assms(1) ne] level_stack_def)
  have st: "stack (snd ?res) self = ?level @ (if isl (fst ?res) then [] else [0])"
    using assms(2) by (simp add: log_str_stack [OF assms(1) ne] level_stack_def)
  have raised: "fst ?res = Inl e \<and> stack (snd ?res) self = ?level"
    if "sink_exception w self s = Some e"
    using that by (simp add: st f)
  have returned: "fst ?res = Inr (length (logger_heap w))
        \<and> stack (snd ?res) self = ?level @ [0]
        \<and> stack (snd (incr_last self (snd ?res))) self = ?level @ [1]
        \<and> (\<not> startswith_colon s2 \<longrightarrow>
             sink_calls (snd (Logger_log self (VStr s2) (snd ?res))) =
               sink_calls (snd ?res) @
                 (if rendered (cut_trailing s2)
                  then [(VStr (cut_trailing s2), prefix (logger_heap w ! self), ?level @ [1],
                         indent_type (logger_heap w ! self))] else [])
             \<and> take (Suc (length ?level)) (stack (snd (Logger_log self (VStr s2) (snd ?res))) self)
                 = ?level @ [1])
        \<and> (startswith_colon s2 \<longrightarrow>
             sink_calls (snd (Logger_log self (VStr s2) (snd ?res))) =
               sink_calls (snd ?res) @
                 (if rendered (cut_trailing (drop 1 s2))
                  then [(VStr (cut_trailing (drop 1 s2)), prefix (logger_heap w ! self), ?level,
                         indent_type (logger_heap w ! self))] else []))"
    if "sink_exception w self s = None"
  proof -
    have f': "fst ?res = Inr (length (logger_heap w))"
      using that by (simp add: f)
    have st': "stack (snd ?res) self = ?level @ [0]"
      by (simp add: st f')
    have v: "valid (snd ?res) self"
      using assms(1) ne by (rule log_str_valid)
    have n: "stack (snd ?res) self \<noteq> []"
      by (simp add: st')
    have lg: "logger_heap (snd ?res) ! self = logger_heap w ! self"
      using assms(1) ne by (rule log_str_logger)
    have i: "stack (snd (incr_last self (snd ?res))) self = ?level @ [1]"
      using v by (simp add: incr_last_result [OF n] st')
    have nx: "sink_calls (snd (Logger_log self (VStr s2) (snd ?res))) =
                sink_calls (snd ?res) @
                  (if rendered (cut_trailing s2)
                   then [(VStr (cut_trailing s2), prefix (logger_heap w ! self), ?level @ [1],
                          indent_type (logger_heap w ! self))] else [])"
      if "\<not> startswith_colon s2"
      using that by (simp add: log_str_sink_calls [OF v n] lg st' cut_leading_def)
    have ns: "take (Suc (length ?level)) (stack (snd (Logger_log self (VStr s2) (snd ?res))) self)
                = ?level @ [1]"
      if "\<not> startswith_colon s2"
      using that by (simp add: log_str_stack [OF v n] st')
    have nl: "sink_calls (snd (Logger_log self (VStr s2) (snd ?res))) =
                sink_calls (snd ?res) @
                  (if rendered (cut_trailing (drop 1 s2))
                   then [(VStr (cut_trailing (drop 1 s2)), prefix (logger_heap w ! self), ?level,
                          indent_type (logger_heap w ! self))] else [])"
      if "startswith_colon s2"
      using that by (simp add: log_str_sink_calls [OF v n] lg st' cut_leading_def)
    show ?thesis
      using f' st' i nx ns nl by simp
  qed
  show ?thesis
    unfolding Let_def using ne c raised returned by simp
qed

theorem log_trailing_sigil_witness:
  "valid (world_at [2, 4]) global_logger \<and> endswith_colon (cut_leading ''step:'')
   \<and> stack (world_at [2, 4]) global_logger \<noteq> []
   \<and> sink_exception (world_at [2, 4]) global_logger ''step:'' = None
   \<and> \<not> startswith_colon ''sub''
   \<and> sink_calls (snd (Logger_log global_logger (VStr ''step:'') (world_at [2, 4])))
        = [(VStr ''step'', ''GLOBAL'', [2, 5], STD_SPACE_INDENT)]
   \<and> stack (snd (Logger_log global_logger (VStr ''step:'') (world_at [2, 4]))) global_logger = [2, 5, 0]
   \<and> sink_calls (snd (Logger_log global_logger (VStr ''sub'')
                        (snd (Logger_log global_logger (VStr ''step:'') (world_at [2, 4])))))
        = [(VStr ''step'', ''GLOBAL'', [2, 5], STD_SPACE_INDENT),
           (VStr ''sub'', ''GLOBAL'', [2, 5, 1], STD_SPACE_INDENT)]"
proof -
  have v: "valid (world_at [2, 4]) global_logger" by simp
  have n: "stack (world_at [2, 4]) global_logger \<noteq> []" by simp
  have c: "cut_leading ''step:'' = ''step:''" "\<not> startswith_colon ''step:''"
    "\<not> startswith_colon ''sub''" "cut_trailing ''sub'' = ''sub''" "rendered ''sub''" "rendered ''step''"
    by (simp_all add: cut_leading_def cut_trailing_def startswith_colon_def endswith_colon_def rendered_def)
  have e: "endswith_colon (cut_leading ''step:'')"
    by (simp add: c endswith_colon_def)
  have r: "sink_exception (world_at [2, 4]) global_logger ''step:'' = None"
    by (simp add: std_sink_returns)
  note t = log_trailing_sigil [OF v e, of "''sub''", unfolded Let_def, THEN conjunct2, rule_format, OF n]
  note t1 = t [THEN conjunct1]
  note t3 = t [THEN conjunct2, THEN conjunct2, rule_format, OF r]
  show ?thesis
    using t1 t3 v e r c by (simp add: level_stack_def)
qed

text \<open>
  The claim C2 as stated fails in three ways. In the state that one \<^verbatim>\<open>log(":")\<close> on
  the root logger leaves, \<^verbatim>\<open>log("x:")\<close> raises IndexError: nothing is rendered and no
  frame is pushed. After \<^verbatim>\<open>log("a")\<close> and \<^verbatim>\<open>log("b:")\<close> from the initial store, the
  next call \<^verbatim>\<open>log(":c")\<close> is rendered with the stack \<open>[2]\<close>, whose last counter is the
  parent's \<open>2\<close> and not \<open>1\<close>. With a log function that raises, \<^verbatim>\<open>log("x:")\<close> raises
  its exception and the stack is \<open>[1]\<close>, without a zero frame.
\<close>

theorem log_trailing_sigil_counterexample:
  "fst (Logger_log global_logger (VStr ''x:'') closed_root) = Inl IndexError
   \<and> stack (snd (Logger_log global_logger (VStr ''x:'') closed_root)) global_logger = []
   \<and> sink_calls (snd (Logger_log global_logger (VStr ''x:'') closed_root)) = sink_calls closed_root
   \<and> sink_calls (snd (log (VStr '':c'') (snd (log (VStr ''b:'') (snd (log (VStr ''a'') init_world))))))
       = [(VStr ''a'', ''GLOBAL'', [1], STD_SPACE_INDENT),
          (VStr ''b'', ''GLOBAL'', [2], STD_SPACE_INDENT),
          (VStr ''c'', ''GLOBAL'', [2], STD_SPACE_INDENT)]
   \<and> fst (Logger_log 1 (VStr ''x:'') failing_world) = Inl (Raised ''sink'')
   \<and> stack (snd (Logger_log 1 (VStr ''x:'') failing_world)) 1 = [1]"
  by code_simp

text \<open>
  C7, as the code has it. For a logger whose depth stack is not empty and a string
  message that is, after the sigils are cut off, the empty string or one space:
  \<^verbatim>\<open>log\<close> returns (the copy), the log function is not called and nothing is printed.
  The first statement increments the counter of the level; without a leading sigil that
  is the counter the stack ends with afterwards (before the zero frame of a trailing
  sigil), with a leading sigil the incremented frame is the one popped. In particular
  the message \<open>":"\<close> pops one frame, calls no log function and raises nothing. On an
  empty depth stack \<^verbatim>\<open>log\<close> raises IndexError for these messages too, and changes
  nothing.
\<close>

theorem log_suppressed:
  assumes "valid w self"
    and "cut_trailing (cut_leading s) = [] \<or> cut_trailing (cut_leading s) = '' ''"
  shows
    "(let ns = stack w self;
          res = Logger_log self (VStr s) w;
          colon = Logger_log self (VStr '':'') w
      in (ns = [] \<longrightarrow> res = (Inl IndexError, w) \<and> colon = (Inl IndexError, w))
       \<and> (ns \<noteq> [] \<longrightarrow>
            fst res = Inr (length (logger_heap w))
          \<and> sink_calls (snd res) = sink_calls w
          \<and> stdout (snd res) = stdout w
          \<and> stack (snd (incr_last self w)) self = butlast ns @ [last ns + 1]
          \<and> stack (snd res) self =
              (if startswith_colon s then butlast ns else butlast ns @ [last ns + 1])
              @ (if endswith_colon (cut_leading s) then [0] else [])
          \<and> fst colon = Inr (length (logger_heap w))
          \<and> sink_calls (snd colon) = sink_calls w
          \<and> stack (snd colon) self = butlast ns))"
proof (cases "stack w self = []")
  case True
  then show ?thesis by (simp add: log_empty_stack)
next
  case False
  have nr: "\<not> rendered (cut_trailing (cut_leading s))"
    using assms(2) by (auto simp add: rendered_def)
  have c: "cut_leading '':'' = []" "cut_trailing [] = []" "\<not> rendered []" "\<not> endswith_colon []"
    by (simp_all add: cut_leading_def cut_trailing_def rendered_def endswith_colon_def)
  have f: "fst (Logger_log self (VStr s) w) = Inr (length (logger_heap w))"
    using assms(1) False nr by (simp add: log_str_fst)
  have f': "fst (Logger_log self (VStr '':'') w) = Inr (length (logger_heap w))"
    using assms(1) False c by (simp add: log_str_fst)
  have i: "stack (snd (incr_last self w)) self = butlast (stack w self) @ [last (stack w self) + 1]"
    using assms(1) False by (simp add: incr_last_result)
  show ?thesis
    unfolding Let_def
    using assms(1) False nr c f f' i
    by (simp add: log_str_sink_calls log_str_stdout log_str_stack)
qed

theorem log_suppressed_witness:
  "valid (world_at [2, 4]) global_logger \<and> stack (world_at [2, 4]) global_logger \<noteq> []
   \<and> cut_trailing (cut_leading '' :'') = '' ''
   \<and> sink_calls (snd (Logger_log global_logger (VStr '' :'') (world_at [2, 4]))) = []
   \<and> stack (snd (Logger_log global_logger (VStr '' :'') (world_at [2, 4]))) global_logger = [2, 5, 0]
   \<and> stack (snd (Logger_log global_logger (VStr '':'') (world_at [2, 4]))) global_logger = [2]"
proof -
  have v: "valid (world_at [2, 4]) global_logger" by simp
  have n: "stack (world_at [2, 4]) global_logger \<noteq> []" by simp
  have c: "cut_leading '' :'' = '' :''" "cut_trailing '' :'' = '' ''" "endswith_colon '' :''"
    "\<not> startswith_colon '' :''"
    by (simp_all add: cut_leading_def cut_trailing_def endswith_colon_def startswith_colon_def)
  have h: "cut_trailing (cut_leading '' :'') = [] \<or> cut_trailing (cut_leading '' :'') = '' ''"
    by (simp add: c)
  note t = log_suppressed [OF v h, unfolded Let_def, THEN conjunct2, rule_format, OF n]
  show ?thesis
    using t c by simp
qed

text \<open>
  The claim C7 as stated, for every logger, fails in the state that one \<^verbatim>\<open>log(":")\<close>
  on the root logger leaves: a second \<^verbatim>\<open>log(":")\<close> raises IndexError, and
  \<^verbatim>\<open>log("")\<close> raises IndexError without incrementing a counter.
\<close>

theorem log_suppressed_counterexample:
  "stack closed_root global_logger = []
   \<and> fst (Logger_log global_logger (VStr '':'') closed_root) = Inl IndexError
   \<and> Logger_log global_logger (VStr '''') closed_root = (Inl IndexError, closed_root)"
  by (simp add: stack_closed_root log_empty_stack)

section \<open>Sequences of calls\<close>

text \<open>
  C6, as the code has it. For a logger whose depth stack is not empty at the start and a
  sequence of \<^verbatim>\<open>log\<close> calls on it whose messages are strings with neither a leading
  nor a trailing \<open>":"\<close>: after the first \<open>k\<close> calls, for every \<open>k\<close>, the depth
  stack has the length it had at the start, its frames below the last are unchanged,
  and its last counter is the initial one plus \<open>k\<close>: each call adds exactly one. On an
  empty depth stack every such call raises IndexError and the sequence changes nothing.
\<close>

theorem log_no_sigil_sequence:
  assumes "valid w self"
    and "\<forall>m \<in> set ms. \<not> startswith_colon m \<and> \<not> endswith_colon m"
    and "k \<le> length ms"
  shows "(stack w self \<noteq> [] \<longrightarrow>
           stack (log_calls self (take k ms) w) self
             = butlast (stack w self) @ [last (stack w self) + int k]
         \<and> length (stack (log_calls self (take k ms) w) self) = length (stack w self)
         \<and> (k < length ms \<longrightarrow>
              last (stack (log_calls self (take (Suc k) ms) w) self)
                = last (stack (log_calls self (take k ms) w) self) + 1))
       \<and> (stack w self = [] \<longrightarrow> log_calls self ms w = w)"
proof (cases "stack w self = []")
  case True
  have "log_calls self ms w = w"
    using True by (induction ms) (simp_all add: log_empty_stack)
  with True show ?thesis by simp
next
  case False
  have p: "stack (log_calls self (take j ms) w) self
             = butlast (stack w self) @ [last (stack w self) + int j]" if "j \<le> length ms" for j
  proof -
    have "\<forall>m \<in> set (take j ms). \<not> startswith_colon m \<and> \<not> endswith_colon m"
      using assms(2) by (meson in_set_takeD)
    from log_calls_plain [OF assms(1) False this] that show ?thesis by simp
  qed
  have l: "length (butlast (stack w self) @ [x]) = length (stack w self)" for x
    using False by simp
  show ?thesis
    using False p [of k] p [of "Suc k"] assms(3) l by simp
qed

theorem log_no_sigil_sequence_witness:
  "valid (world_at [2, 4]) global_logger \<and> stack (world_at [2, 4]) global_logger \<noteq> []
   \<and> stack (log_calls global_logger (take 3 [''a'', ''b'', ''c'']) (world_at [2, 4])) global_logger
       = [2, 7]
   \<and> last (stack (log_calls global_logger (take (Suc 1) [''a'', ''b'', ''c'']) (world_at [2, 4])) global_logger)
       = last (stack (log_calls global_logger (take 1 [''a'', ''b'', ''c'']) (world_at [2, 4])) global_logger) + 1"
proof -
  have v: "valid (world_at [2, 4]) global_logger" by simp
  have n: "stack (world_at [2, 4]) global_logger \<noteq> []" by simp
  have m: "\<forall>m \<in> set [''a'', ''b'', ''c'']. \<not> startswith_colon m \<and> \<not> endswith_colon m"
    by (simp add: startswith_colon_def endswith_colon_def)
  have k3: "(3::nat) \<le> length [''a'', ''b'', ''c'']" and k1: "(1::nat) \<le> length [''a'', ''b'', ''c'']"
    by simp_all
  note t3 = log_no_sigil_sequence [OF v m k3, THEN conjunct1, rule_format, OF n, THEN conjunct1]
  note t1 = log_no_sigil_sequence [OF v m k1, THEN conjunct1, rule_format, OF n, THEN conjunct2, THEN conjunct2]
  show ?thesis
    using t3 t1 v by simp
qed

text \<open>
  The claim C6 as stated, for every sequence of calls on a logger, fails in the state
  that one \<^verbatim>\<open>log(":")\<close> on the root logger leaves: \<^verbatim>\<open>log("a")\<close> raises IndexError,
  and after \<^verbatim>\<open>log("a")\<close> and \<^verbatim>\<open>log("b")\<close> the depth stack is still empty, with no
  last counter that could have increased.
\<close>

theorem log_no_sigil_sequence_counterexample:
  "stack closed_root global_logger = []
   \<and> fst (Logger_log global_logger (VStr ''a'') closed_root) = Inl IndexError
   \<and> stack (log_calls global_logger [''a'', ''b''] closed_root) global_logger = []"
  by (simp add: stack_closed_root log_empty_stack)

section \<open>Leaving a scope\<close>

text \<open>
  C3, as the code has it. \<^verbatim>\<open>deindent\<close> has no guard. On a non-empty stack it removes
  the last frame and returns, also when that was the only frame and the stack becomes
  empty; it raises (the IndexError of the deletion, the store unchanged) only when the
  stack is empty already. So the stack has at least one frame after \<^verbatim>\<open>deindent\<close>
  exactly when it had at least two before, whereas \<^verbatim>\<open>indent\<close> always leaves a
  non-empty stack.
\<close>

theorem deindent_behaviour:
  assumes "valid w self"
  shows "(stack w self = [] \<longrightarrow> Logger_deindent self w = (Inl IndexError, w))
       \<and> (stack w self \<noteq> [] \<longrightarrow>
            fst (Logger_deindent self w) = Inr ()
            \<and> stack (snd (Logger_deindent self w)) self = butlast (stack w self))
       \<and> (1 \<le> length (stack (snd (Logger_deindent self w)) self) \<longleftrightarrow> 2 \<le> length (stack w self))
       \<and> 1 \<le> length (stack (snd (Logger_indent self w)) self)"
proof (cases "stack w self = []")
  case True
  with assms show ?thesis
    by (simp add: Logger_deindent_def Logger_indent_def)
next
  case False
  then have "2 \<le> length (stack w self) \<longleftrightarrow> 1 \<le> length (butlast (stack w self))"
    by (cases "stack w self") auto
  with assms False show ?thesis
    by (simp add: deindent_result Logger_indent_def)
qed

theorem deindent_behaviour_witness:
  "valid (world_at [2, 4]) global_logger
   \<and> fst (Logger_deindent global_logger (world_at [2, 4])) = Inr ()
   \<and> stack (snd (Logger_deindent global_logger (world_at [2, 4]))) global_logger = [2]
   \<and> Logger_deindent global_logger (world_at []) = (Inl IndexError, world_at [])"
proof -
  have v: "valid (world_at ns) global_logger" for ns by simp
  show ?thesis
    using deindent_behaviour [OF v, of "[2, 4]"] deindent_behaviour [OF v, of "[]"] by simp
qed

text \<open>
  The claim C3 as stated fails on the root logger: \<^verbatim>\<open>deindent\<close> returns without an
  error and leaves the depth stack empty.
\<close>

theorem deindent_root_counterexample:
  "fst (Logger_deindent global_logger init_world) = Inr ()
   \<and> length (stack (snd (Logger_deindent global_logger init_world)) global_logger) = 0"
  by (simp add: init_world_at deindent_result)

section \<open>The copy returned by log\<close>

text \<open>
  C4, as the code has it. \<^verbatim>\<open>copy\<close> returns a new logger with the prefix, the indent
  strategy and the log function of the original, whose depth stack is a new list object:
  the contents of the original's stack with one zero frame appended, at an address no
  logger had before. The list is not shared, so a later \<^verbatim>\<open>log\<close> call on the original
  leaves the stack of the copy as it is, and a later \<^verbatim>\<open>log\<close> call on the copy leaves
  the stack of the original as it is. The logger that \<^verbatim>\<open>log\<close> returns is such a copy.
\<close>

theorem copy_fresh_stack:
  assumes "valid w self"
  shows
    "(let res = Logger_copy self w;
          w' = snd res;
          c = length (logger_heap w);
          lw = snd (Logger_log self message w)
      in fst res = Inr c
       \<and> prefix (logger_heap w' ! c) = prefix (logger_heap w ! self)
       \<and> indent_type (logger_heap w' ! c) = indent_type (logger_heap w ! self)
       \<and> log_function (logger_heap w' ! c) = log_function (logger_heap w ! self)
       \<and> stack w' c = stack w self @ [0]
       \<and> stack w' self = stack w self
       \<and> nlist (logger_heap w' ! c) = length (list_heap w)
       \<and> nlist (logger_heap w' ! c) \<noteq> nlist (logger_heap w' ! self)
       \<and> stack (snd (Logger_log self m1 w')) c = stack w self @ [0]
       \<and> stack (snd (Logger_log c m2 w')) self = stack w self
       \<and> (fst (Logger_log self message w) = Inr c' \<longrightarrow>
            c' = c \<and> stack lw c' = stack lw self @ [0]
            \<and> nlist (logger_heap lw ! c') \<noteq> nlist (logger_heap lw ! self)))"
proof -
  let ?w' = "snd (Logger_copy self w)"
  let ?c = "length (logger_heap w)"
  have b: "self < length (logger_heap w)" "nlist (logger_heap w ! self) < length (list_heap w)"
    using assms by (simp_all add: valid_def)
  have vs: "valid ?w' self" using assms by simp
  have vc: "valid ?w' ?c" by (rule valid_copy_new)
  have ne: "nlist (logger_heap ?w' ! ?c) \<noteq> nlist (logger_heap ?w' ! self)"
    using copy_returned [OF assms] by simp
  have o1: "stack (snd (Logger_log self m1 ?w')) ?c = stack w self @ [0]"
    using log_other_stack [OF vs vc ne] by (simp add: copy_new_stack)
  have o2: "stack (snd (Logger_log ?c m2 ?w')) self = stack w self"
    using log_other_stack [OF vc vs ne [symmetric]] assms by simp
  have r: "fst (Logger_log self message w) = Inr c' \<Longrightarrow>
            c' = ?c \<and> stack (snd (Logger_log self message w)) c'
                        = stack (snd (Logger_log self message w)) self @ [0]
            \<and> nlist (logger_heap (snd (Logger_log self message w)) ! c')
                 \<noteq> nlist (logger_heap (snd (Logger_log self message w)) ! self)"
    by (rule log_returned_copy [OF assms])
  show ?thesis
    unfolding Let_def
    using assms b o1 o2 r ne by (simp add: copy_new_stack copy_new_logger)
qed

theorem copy_fresh_stack_witness:
  "valid (world_at [2, 4]) global_logger
   \<and> fst (Logger_copy global_logger (world_at [2, 4])) = Inr 1
   \<and> stack (snd (Logger_copy global_logger (world_at [2, 4]))) 1 = [2, 4, 0]
   \<and> stack (snd (Logger_log global_logger (VStr ''x'')
                   (snd (Logger_copy global_logger (world_at [2, 4]))))) 1 = [2, 4, 0]"
proof -
  have v: "valid (world_at [2, 4]) global_logger" by simp
  note t = copy_fresh_stack [OF v, of _ "VStr ''x''", unfolded Let_def]
  show ?thesis
    using t by simp
qed

text \<open>
  The claim C4 as stated fails: the list of the copy is another object than the list of
  the original, and after the original logs a message its first frame is \<open>1\<close> while
  the first frame of the copy is still \<open>0\<close>.
\<close>

theorem copy_shared_counterexample:
  "fst (Logger_copy global_logger init_world) = Inr 1
   \<and> nlist (logger_heap (snd (Logger_copy global_logger init_world)) ! 1)
       \<noteq> nlist (logger_heap (snd (Logger_copy global_logger init_world)) ! global_logger)
   \<and> stack (snd (Logger_log global_logger (VStr ''a'')
                   (snd (Logger_copy global_logger init_world)))) global_logger = [1]
   \<and> stack (snd (Logger_log global_logger (VStr ''a'')
                   (snd (Logger_copy global_logger init_world)))) 1 = [0, 0]"
proof -
  let ?w' = "snd (Logger_copy global_logger (world_at [0]))"
  have l: "length (logger_heap (world_at [0])) = 1" by simp
  have vs: "valid ?w' global_logger" by simp
  have vc: "valid ?w' 1" using valid_copy_new [of global_logger "world_at [0]"] by simp
  have ne: "nlist (logger_heap ?w' ! 1) \<noteq> nlist (logger_heap ?w' ! global_logger)"
    using copy_returned [of "world_at [0]" global_logger] by simp
  have s0: "stack ?w' global_logger = [0]" by simp
  have s1: "stack ?w' 1 = [0, 0]"
    using copy_new_stack [of global_logger "world_at [0]"] by simp
  have p: "\<not> startswith_colon ''a''" "\<not> endswith_colon ''a''"
    by (simp_all add: startswith_colon_def endswith_colon_def)
  have a: "stack (snd (Logger_log global_logger (VStr ''a'') ?w')) global_logger = [1]"
    using log_plain_stack [OF vs _ p] s0 by simp
  have b: "stack (snd (Logger_log global_logger (VStr ''a'') ?w')) 1 = [0, 0]"
    using log_other_stack [OF vs vc ne] s1 by simp
  show ?thesis
    unfolding init_world_at using ne a b by simp
qed

section \<open>Scoped acquisition\<close>

text \<open>
  C5, as the code has it. Take a \<^verbatim>\<open>with\<close> statement on a logger whose body leaves the
  store \<open>w2\<close> with outcome \<open>r\<close> (a value or an exception), where at that point the
  depth stack of the logger is not empty and its \<^verbatim>\<open>prev_logger\<close> is still the logger
  that was current before \<^verbatim>\<open>__enter__\<close> (the body did not enter the same logger
  again). Then \<^verbatim>\<open>__exit__\<close> pops exactly one frame of that logger, the current logger
  is again the one before the statement, and the outcome of the statement is \<open>r\<close>
  unchanged. During the body the logger is the current one, and \<^verbatim>\<open>__enter__\<close> has
  stored the previous one. The wrapper of the decorator is this statement on the logger
  that \<^verbatim>\<open>log\<close> returned.
\<close>

theorem scoped_exit:
  assumes "body (snd (Logger_enter self w)) = (r, w2)"
    and "valid w2 self" and "stack w2 self \<noteq> []"
    and "prev_logger (logger_heap w2 ! self) = Some (get_current_logger w)"
  shows "fst (with_logger self body w) = r
       \<and> stack (snd (with_logger self body w)) self = butlast (stack w2 self)
       \<and> get_current_logger (snd (with_logger self body w)) = get_current_logger w
       \<and> snd (with_logger self body w) =
           (set_stack self (butlast (stack w2 self)) w2)\<lparr>logger_contextvar := Some (get_current_logger w)\<rparr>
       \<and> get_current_logger (snd (Logger_enter self w)) = self
       \<and> (self < length (logger_heap w) \<longrightarrow>
            prev_logger (logger_heap (snd (Logger_enter self w)) ! self) = Some (get_current_logger w))
       \<and> (fst (log message w0) = Inr lg \<longrightarrow>
            wrapper (Message message) func_args decorated_func args kwargs w0 =
              with_logger lg (decorated_func args kwargs) (snd (log message w0)))"
proof -
  obtain w1 where e: "Logger_enter self w = (Inr (), w1)"
    by (cases "Logger_enter self w") (use fst_enter [of self w] in auto)
  have b: "body w1 = (r, w2)" using assms(1) e by simp
  have x: "with_logger self body w =
      (r, (set_stack self (butlast (stack w2 self)) w2)\<lparr>logger_contextvar := Some (get_current_logger w)\<rparr>)"
    by (simp add: with_logger_def e b exit_result [OF assms(3,4)])
  have d: "fst (log message w0) = Inr lg \<Longrightarrow>
            wrapper (Message message) func_args decorated_func args kwargs w0 =
              with_logger lg (decorated_func args kwargs) (snd (log message w0))"
    by (cases "log message w0") (simp add: wrapper_def compute_message_def then_do_def)
  have g: "get_current_logger (w'\<lparr>logger_contextvar := Some p\<rparr>) = p" for w' p
    by (simp add: get_current_logger_def)
  show ?thesis
    using assms(2) d by (simp add: x g prev_enter)
qed

theorem scoped_exit_witness:
  "raise (Raised ''boom'') (snd (Logger_enter 1 (snd (Logger_copy global_logger (world_at [3])))))
     = (Inl (Raised ''boom''), snd (Logger_enter 1 (snd (Logger_copy global_logger (world_at [3])))))
   \<and> stack (snd (Logger_enter 1 (snd (Logger_copy global_logger (world_at [3]))))) 1 = [3, 0]
   \<and> fst (with_logger 1 (raise (Raised ''boom'')) (snd (Logger_copy global_logger (world_at [3]))))
       = Inl (Raised ''boom'')
   \<and> stack (snd (with_logger 1 (raise (Raised ''boom'')) (snd (Logger_copy global_logger (world_at [3]))))) 1
       = [3]
   \<and> get_current_logger (snd (with_logger 1 (raise (Raised ''boom''))
         (snd (Logger_copy global_logger (world_at [3]))))) = global_logger"
proof -
  let ?w = "snd (Logger_copy global_logger (world_at [3]))"
  let ?w2 = "snd (Logger_enter 1 ?w)"
  have b: "raise (Raised ''boom'') ?w2 = (Inl (Raised ''boom''), ?w2)"
    by (simp add: raise_def)
  have v1: "valid ?w 1"
    using valid_copy_new [of global_logger "world_at [3]"] by simp
  have v: "valid ?w2 1"
    using v1 by simp
  have s1: "stack ?w 1 = [3, 0]"
    using copy_new_stack [of global_logger "world_at [3]"] by simp
  have s: "stack ?w2 1 = [3, 0]"
    using v1 s1 by simp
  have n: "stack ?w2 1 \<noteq> []"
    using s by simp
  have c: "get_current_logger ?w = global_logger"
    by (simp add: get_current_logger_def)
  have p: "prev_logger (logger_heap ?w2 ! 1) = Some (get_current_logger ?w)"
    using v1 by (simp add: prev_enter valid_def)
  note t = scoped_exit [where body = "raise (Raised ''boom'')" and self = 1 and w = ?w, OF b v n p]
  note t1 = t [THEN conjunct1]
  note t2 = t [THEN conjunct2, THEN conjunct1]
  note t3 = t [THEN conjunct2, THEN conjunct2, THEN conjunct1]
  show ?thesis
    using t1 t2 t3 b s c by simp
qed

text \<open>
  The claim C5 as stated fails when the decorated function logs \<open>":"\<close> twice at the top
  level: the stack of the scope's logger is empty when the scope exits, so
  \<^verbatim>\<open>__exit__\<close> raises IndexError before it restores the context variable. The
  IndexError replaces the value or the exception of the decorated function, no frame is
  popped, and the current logger stays the scope's logger.
\<close>

theorem scoped_exit_counterexample:
  "fst (wrapper (Message (VStr ''f'')) [] (close_twice (Inl (Raised ''boom''))) [] [] init_world)
     = Inl IndexError
   \<and> fst (wrapper (Message (VStr ''f'')) [] (close_twice (Inr VNone)) [] [] init_world)
     = Inl IndexError
   \<and> get_current_logger init_world = 0
   \<and> get_current_logger
       (snd (wrapper (Message (VStr ''f'')) [] (close_twice (Inl (Raised ''boom''))) [] [] init_world)) = 1"
  by code_simp

section \<open>The decorator's message\<close>



section \<open>Properties of the indent strategies\<close>

lemma str_nat_digit: "n < 10 \<Longrightarrow> str_nat n = [digit_char n]"
  by (simp add: str_nat.simps)

text \<open>
  C9. \<^verbatim>\<open>NumberedIndent\<close> applied to \<open>[1,2,3]\<close> returns \<open>"1. 2. 3. "\<close>;
  \<^verbatim>\<open>SpaceIndent("-")\<close> applied to \<open>[0,1]\<close> returns \<open>"-"\<close>, and in general a
  one-character \<^verbatim>\<open>SpaceIndent\<close> returns that character repeated
  \<open>len(nlist) - 1\<close> times; \<^verbatim>\<open>NoneIndent\<close> returns the empty string on every stack.
\<close>

theorem indent_strategies:
  "indent_call NumberedIndent [1, 2, 3] = ''1. 2. 3. ''
   \<and> indent_call (SpaceIndent ''-'') [0, 1] = ''-''
   \<and> indent_call (SpaceIndent [c]) ns = replicate (length ns - 1) c
   \<and> indent_call NoneIndent ns = ''''"
proof -
  have n: "indent_call NumberedIndent [1, 2, 3] = ''1. 2. 3. ''"
    by (simp add: str_int_def str_nat_digit digit_char_def)
  have s: "indent_call (SpaceIndent [c]) ns = replicate (length ns - 1) c"
  proof (cases ns)
    case Nil
    then show ?thesis by (simp add: str_mul_def)
  next
    case (Cons a as)
    have "concat (replicate k [c]) = replicate k c" for k
      by (induction k) simp_all
    with Cons show ?thesis by (simp add: str_mul_def)
  qed
  have d: "indent_call (SpaceIndent ''-'') [0, 1] = ''-''"
    by (simp add: str_mul_def)
  from n s d show ?thesis by simp
qed

section \<open>Messages that are not strings\<close>

text \<open>
  C10, as the code has it. \<^verbatim>\<open>message.startswith(":")\<close> is not guarded by the
  \<^verbatim>\<open>isinstance(message, str)\<close> test of the trailing-sigil check, so \<^verbatim>\<open>log\<close> raises
  on every message on which that call raises; these include every message of the
  built-in types \<^verbatim>\<open>NoneType\<close>, \<^verbatim>\<open>bool\<close>, \<^verbatim>\<open>int\<close> and \<^verbatim>\<open>list\<close> (AttributeError) and
  \<^verbatim>\<open>bytes\<close> (TypeError). From a non-empty stack the exception is that of
  \<^verbatim>\<open>startswith\<close>, raised after the counter was incremented and before any log
  function is called. A decorator given such a constant message raises on every call
  of the wrapper, in \<^verbatim>\<open>log\<close>, and the store it leaves is the one \<^verbatim>\<open>log\<close> left: the
  decorated function is not called. A message that is not a \<^verbatim>\<open>str\<close> but has a
  \<^verbatim>\<open>startswith\<close> method that accepts a \<^verbatim>\<open>str\<close> is not rejected.
\<close>

theorem log_non_string:
  assumes "py_startswith message = Inl e"
  shows "isl (fst (Logger_log self message w))
       \<and> (stack w self \<noteq> [] \<longrightarrow>
            Logger_log self message w =
              (Inl e, set_stack self (butlast (stack w self) @ [last (stack w self) + 1]) w))
       \<and> isl (fst (wrapper (Message message) func_args decorated_func args kwargs w))
       \<and> snd (wrapper (Message message) func_args decorated_func args kwargs w)
            = snd (log message w)
       \<and> py_startswith VNone = Inl AttributeError
       \<and> py_startswith (VBool b) = Inl AttributeError
       \<and> py_startswith (VInt i) = Inl AttributeError
       \<and> py_startswith (VList xs) = Inl AttributeError
       \<and> py_startswith (VBytes bs) = Inl TypeError"
proof -
  have a: "isl (fst (Logger_log l message w'))" for l w'
    using assms
    by (simp add: Logger_log_def log_leading_def then_do_def incr_last_def lift_def)
  have b: "stack w self \<noteq> [] \<Longrightarrow>
            Logger_log self message w =
              (Inl e, set_stack self (butlast (stack w self) @ [last (stack w self) + 1]) w)"
    using assms
    by (simp add: Logger_log_def log_leading_def then_do_def incr_last_def lift_def)
  obtain e' w' where l: "log message w = (Inl e', w')"
    using a [of "get_current_logger w" w]
    by (cases "log message w") (auto simp add: log_def isl_def)
  have c: "wrapper (Message message) func_args decorated_func args kwargs w = (Inl e', w')"
    by (simp add: wrapper_def compute_message_def then_do_def l)
  show ?thesis
    using a b c l by simp
qed

theorem log_non_string_witness:
  "py_startswith (VInt 7) = Inl AttributeError
   \<and> Logger_log global_logger (VInt 7) (world_at [2, 4])
       = (Inl AttributeError, set_stack global_logger [2, 5] (world_at [2, 4]))
   \<and> isl (fst (wrapper (Message (VInt 7)) [] return_none [] [] (world_at [2, 4])))"
proof -
  have p: "py_startswith (VInt 7) = Inl AttributeError" by simp
  note t = log_non_string [OF p, of global_logger "world_at [2, 4]" "[]" return_none "[]" "[]"]
  note t2 = t [THEN conjunct2, THEN conjunct1]
  note t3 = t [THEN conjunct2, THEN conjunct2, THEN conjunct1]
  show ?thesis
    using p t2 t3 by simp
qed

text \<open>
  The claim C10 as stated, for every message that is not a string, fails on an instance
  of \<^verbatim>\<open>collections.UserString\<close>: it is not a \<^verbatim>\<open>str\<close>, its \<^verbatim>\<open>startswith\<close> accepts
  \<open>":"\<close>, and \<^verbatim>\<open>log\<close> prints its line and returns the copy; a decorator with that
  constant message runs the decorated function and returns its value.
\<close>

theorem log_non_string_counterexample:
  "\<not> is_str (VUserString ''hello'')
   \<and> fst (Logger_log global_logger (VUserString ''hello'') init_world) = Inr 1
   \<and> stdout (snd (Logger_log global_logger (VUserString ''hello'') init_world)) = [''[GLOBAL] hello'']
   \<and> fst (wrapper (Message (VUserString ''hello'')) [] return_none [] [] init_world) = Inr VNone"
  by code_simp


end
